theory Spec2Isabelle
  imports Complex_Main "HOL-Library.Word"
begin

section \<open>Tilt timer: data model\<close>

text \<open>
  The sketch \<^verbatim>\<open>Tilt-Timer_code.c\<close> keeps its whole state in global variables and is
  driven by the Arduino \<^verbatim>\<open>loop()\<close>. The globals become one record that every
  function takes and returns; the hardware outputs (LED pin, piezo pin, tone generator,
  the screen last drawn) are fields of the same record. The two enums of the source are
  datatypes with the source's constructor names.
\<close>

datatype State = STATE_MENU | STATE_COUNTDOWN | STATE_ALARM

datatype Face = FACE_NONE | FACE_NEG_Y | FACE_POS_X | FACE_POS_Y | FACE_NEG_X

text \<open>
  A C \<^verbatim>\<open>float\<close>. The sketch only takes absolute values and compares, and both are
  exact in IEEE arithmetic, so a finite float is the real number it denotes (every
  float is a real; \<open>Fin 0\<close> stands for both zeros, which compare equal). The two
  infinities and NaN are values of their own: every comparison with NaN is false.
\<close>

datatype cfloat = Fin real | PInf | NInf | NaN

fun fabsf :: "cfloat \<Rightarrow> cfloat" where
  "fabsf (Fin r) = Fin \<bar>r\<bar>"
| "fabsf PInf = PInf"
| "fabsf NInf = PInf"
| "fabsf NaN = NaN"

text \<open>The C operators \<^verbatim>\<open><=\<close> and \<^verbatim>\<open><\<close> on floats.\<close>

fun f_le :: "cfloat \<Rightarrow> cfloat \<Rightarrow> bool" where
  "f_le NaN b = False"
| "f_le a NaN = False"
| "f_le NInf b = True"
| "f_le a PInf = True"
| "f_le PInf b = False"
| "f_le a NInf = False"
| "f_le (Fin a) (Fin b) = (a \<le> b)"

fun f_lt :: "cfloat \<Rightarrow> cfloat \<Rightarrow> bool" where
  "f_lt NaN b = False"
| "f_lt a NaN = False"
| "f_lt PInf b = False"
| "f_lt a NInf = False"
| "f_lt NInf b = True"
| "f_lt a PInf = True"
| "f_lt (Fin a) (Fin b) = (a < b)"

text \<open>\<^verbatim>\<open>a >= b\<close> and \<^verbatim>\<open>a > b\<close>.\<close>

definition f_ge :: "cfloat \<Rightarrow> cfloat \<Rightarrow> bool" where
  "f_ge a b = f_le b a"

definition f_gt :: "cfloat \<Rightarrow> cfloat \<Rightarrow> bool" where
  "f_gt a b = f_lt b a"

text \<open>\<^verbatim>\<open>unsigned long\<close> on the ESP32 the sketch is written for: 32 bits.\<close>

type_synonym ulong = "32 word"

text \<open>
  What the OLED shows after the last \<^verbatim>\<open>display.display()\<close>: nothing, the menu, the
  countdown number under a rotation, or the alarm text under a rotation. Pixel layout
  is not modelled.
\<close>

datatype screen =
  ScreenBlank
| ScreenMenu
| ScreenCountdown "8 word" int
| ScreenAlarm "8 word"

text \<open>
  The globals, in the order the source declares them, then the outputs. The record is
  parametrised by the type of a timestamp; the program's is \<open>ulong\<close>. The C \<^verbatim>\<open>int\<close>
  fields are \<open>int\<close>: the only decrement is guarded by \<^verbatim>\<open>> 0\<close> and the only
  increment is of an index that was just used to read a 13-element array, so no \<^verbatim>\<open>int\<close>
  arithmetic of the sketch can overflow.
\<close>

record 't state =
  currentState :: State
  activeFace :: Face
  countdownTotalSec :: int
  countdownRemainingSec :: int
  countdownAxisLabel :: char
  lastCountdownTick :: 't
  countdownRotation :: "8 word"
  lastAlarmToggleMs :: 't
  alarmOutputState :: bool
  axisChangePending :: bool
  axisChangeStartMs :: 't
  currentNoteIndex :: int
  noteStartMs :: 't
  led_pin :: bool
  piezo_pin :: bool
  tone_hz :: "int option"
  display :: screen

text \<open>
  What one pass of \<^verbatim>\<open>loop()\<close> reads from the outside: the accelerometer event and the
  millisecond clock. \<^verbatim>\<open>millis()\<close> is called at up to four places on one pass, and
  each call is an input of its own: \<open>ms_loop\<close> in \<^verbatim>\<open>loop\<close> itself, \<open>ms_fn\<close> in
  whichever of \<^verbatim>\<open>startCountdown\<close>, \<^verbatim>\<open>updateCountdown\<close>, \<^verbatim>\<open>updateAlarm\<close> the pass
  runs, \<open>ms_alarm1\<close> and \<open>ms_alarm2\<close> for the two calls in \<^verbatim>\<open>startAlarm\<close>.
\<close>

record 't reading =
  acc_x :: cfloat
  acc_y :: cfloat
  acc_z :: cfloat
  ms_loop :: 't
  ms_fn :: 't
  ms_alarm1 :: 't
  ms_alarm2 :: 't

section \<open>Constants\<close>

definition AXIS_G_MIN :: cfloat where "AXIS_G_MIN = Fin 9"
definition AXIS_G_MAX :: cfloat where "AXIS_G_MAX = Fin (23 / 2)"

definition COUNT_NEG_Y_SEC :: int where "COUNT_NEG_Y_SEC = 5"
definition COUNT_POS_X_SEC :: int where "COUNT_POS_X_SEC = 10"
definition COUNT_POS_Y_SEC :: int where "COUNT_POS_Y_SEC = 15"
definition COUNT_NEG_X_SEC :: int where "COUNT_NEG_X_SEC = 30"

definition ALARM_TOGGLE_MS :: ulong where "ALARM_TOGGLE_MS = 1000"
definition AXIS_CHANGE_BUFFER_MS :: ulong where "AXIS_CHANGE_BUFFER_MS = 500"

definition melody :: "int list" where
  "melody = [659, 587, 370, 415, 554, 494, 294, 330, 494, 440, 277, 330, 440]"

definition noteDurations :: "int list" where
  "noteDurations = [150, 150, 300, 300, 150, 150, 300, 300, 150, 150, 300, 300, 600]"

text \<open>\<^verbatim>\<open>sizeof(melody) / sizeof(melody[0])\<close>.\<close>

definition NUM_NOTES :: int where
  "NUM_NOTES = int (length melody)"

text \<open>
  Reading a C array: inside the array the element, outside it undefined behaviour,
  which the model reports as \<open>None\<close>.
\<close>

definition array_read :: "int list \<Rightarrow> int \<Rightarrow> int option" where
  "array_read xs i = (if 0 \<le> i \<and> i < int (length xs) then Some (xs ! nat i) else None)"

section \<open>Face detection\<close>

definition detectFace :: "cfloat \<Rightarrow> cfloat \<Rightarrow> cfloat \<Rightarrow> Face" where
  "detectFace x y z =
     (let ax = fabsf x; ay = fabsf y; az = fabsf z in
      if f_ge ay ax \<and> f_ge ay az \<and> f_ge ay AXIS_G_MIN \<and> f_le ay AXIS_G_MAX then
        (if f_gt y (Fin 0) then FACE_POS_Y else FACE_NEG_Y)
      else if f_ge ax ay \<and> f_ge ax az \<and> f_ge ax AXIS_G_MIN \<and> f_le ax AXIS_G_MAX then
        (if f_gt x (Fin 0) then FACE_POS_X else FACE_NEG_X)
      else if f_ge az AXIS_G_MIN \<and> f_le az AXIS_G_MAX then FACE_NONE
      else FACE_NONE)"

section \<open>Menu, countdown and alarm\<close>

definition drawMenu :: "'t state \<Rightarrow> 't state" where
  "drawMenu s = s\<lparr>display := ScreenMenu\<rparr>"

definition goToMenu :: "'t state \<Rightarrow> 't state" where
  "goToMenu s =
     drawMenu (s\<lparr>currentState := STATE_MENU, activeFace := FACE_NONE,
                 axisChangePending := False,
                 led_pin := False, piezo_pin := False, tone_hz := None\<rparr>)"

definition drawCountdownScreen :: "'t state \<Rightarrow> 't state" where
  "drawCountdownScreen s =
     s\<lparr>display := ScreenCountdown (countdownRotation s) (countdownRemainingSec s)\<rparr>"

text \<open>The argument \<open>now\<close> is the value of the \<^verbatim>\<open>millis()\<close> call of line 312.\<close>

definition startCountdown ::
  "int \<Rightarrow> char \<Rightarrow> 8 word \<Rightarrow> Face \<Rightarrow> ulong \<Rightarrow> ulong state \<Rightarrow> ulong state" where
  "startCountdown seconds axisLabel rotationIndex face now s =
     drawCountdownScreen
       (s\<lparr>countdownTotalSec := seconds, countdownRemainingSec := seconds,
          countdownAxisLabel := axisLabel, countdownRotation := rotationIndex,
          lastCountdownTick := now, currentState := STATE_COUNTDOWN,
          activeFace := face, axisChangePending := False\<rparr>)"

text \<open>
  \<open>t1\<close> and \<open>t2\<close> are the two \<^verbatim>\<open>millis()\<close> calls of lines 366 and 371. The index is
  set to 0 before \<^verbatim>\<open>melody[currentNoteIndex]\<close> is read, so the read is of element 0.
\<close>

definition startAlarm :: "ulong \<Rightarrow> ulong \<Rightarrow> ulong state \<Rightarrow> ulong state" where
  "startAlarm t1 t2 s =
     (let s1 = s\<lparr>currentState := STATE_ALARM, lastAlarmToggleMs := t1,
                  alarmOutputState := False, currentNoteIndex := 0, noteStartMs := t2,
                  led_pin := False, piezo_pin := False\<rparr>;
          freq = melody ! nat (currentNoteIndex s1);
          s2 = s1\<lparr>tone_hz := (if freq > 0 then Some freq else None)\<rparr>
      in s2\<lparr>display := ScreenAlarm (countdownRotation s2)\<rparr>)"

definition updateCountdown :: "ulong state \<Rightarrow> ulong reading \<Rightarrow> ulong state" where
  "updateCountdown s r =
     (if currentState s \<noteq> STATE_COUNTDOWN then s
      else
        let now = ms_fn r in
        if now - lastCountdownTick s \<ge> 1000 then
          (let s1 = s\<lparr>lastCountdownTick := now\<rparr> in
           if countdownRemainingSec s1 > 0 then
             drawCountdownScreen (s1\<lparr>countdownRemainingSec := countdownRemainingSec s1 - 1\<rparr>)
           else startAlarm (ms_alarm1 r) (ms_alarm2 r) s1)
        else s)"

text \<open>
  \<^verbatim>\<open>updateAlarm\<close> reads \<^verbatim>\<open>noteDurations[currentNoteIndex]\<close> and, after moving the index,
  \<^verbatim>\<open>melody[currentNoteIndex]\<close>; either read outside its array makes the result \<open>None\<close>.
  The cast \<^verbatim>\<open>(unsigned long)\<close> of the duration is \<open>word_of_int\<close>.
\<close>

definition updateAlarm :: "ulong state \<Rightarrow> ulong reading \<Rightarrow> ulong state option" where
  "updateAlarm s r =
     (if currentState s \<noteq> STATE_ALARM then Some s
      else
        let now = ms_fn r;
            s1 = (if now - lastAlarmToggleMs s \<ge> ALARM_TOGGLE_MS then
                    (let s' = s\<lparr>lastAlarmToggleMs := now,
                                 alarmOutputState := \<not> alarmOutputState s\<rparr>
                     in s'\<lparr>led_pin := alarmOutputState s'\<rparr>)
                  else s)
        in
        case array_read noteDurations (currentNoteIndex s1) of
          None \<Rightarrow> None
        | Some d \<Rightarrow>
            if now - noteStartMs s1 \<ge> word_of_int d then
              (let i1 = currentNoteIndex s1 + 1;
                   i2 = (if i1 \<ge> NUM_NOTES then 0 else i1);
                   s2 = s1\<lparr>currentNoteIndex := i2, noteStartMs := now\<rparr>
               in case array_read melody (currentNoteIndex s2) of
                    None \<Rightarrow> None
                  | Some freq \<Rightarrow> Some (s2\<lparr>tone_hz := (if freq > 0 then Some freq else None)\<rparr>))
            else Some s1)"

section \<open>The main loop\<close>

text \<open>
  Lines 158 to 177 of \<^verbatim>\<open>loop\<close>: the axis-change tracking. \<open>Interrupt\<close> is the
  branch that calls \<^verbatim>\<open>goToMenu()\<close> and returns early, which \<open>loop\<close> below carries
  out; \<open>Continue\<close> holds the state with which the pass goes on to the \<^verbatim>\<open>switch\<close>.
\<close>

datatype 't tracked = Interrupt | Continue "'t state"

definition loop_axis_change :: "Face \<Rightarrow> ulong \<Rightarrow> ulong state \<Rightarrow> ulong tracked" where
  "loop_axis_change currentFace now s =
     (if currentState s = STATE_COUNTDOWN \<or> currentState s = STATE_ALARM then
        (if currentFace = activeFace s \<and> currentFace \<noteq> FACE_NONE then
           Continue (s\<lparr>axisChangePending := False\<rparr>)
         else if \<not> axisChangePending s then
           Continue (s\<lparr>axisChangePending := True, axisChangeStartMs := now\<rparr>)
         else if now - axisChangeStartMs s \<ge> AXIS_CHANGE_BUFFER_MS then Interrupt
         else Continue s)
      else Continue (s\<lparr>axisChangePending := False, activeFace := FACE_NONE\<rparr>))"

text \<open>Lines 179 to 207: the \<^verbatim>\<open>switch (currentState)\<close>.\<close>

definition loop_switch :: "Face \<Rightarrow> ulong state \<Rightarrow> ulong reading \<Rightarrow> ulong state option" where
  "loop_switch currentFace s r =
     (case currentState s of
        STATE_MENU \<Rightarrow>
          Some (if currentFace = FACE_NEG_Y then
                  startCountdown COUNT_NEG_Y_SEC (CHR ''Y'') 0 FACE_NEG_Y (ms_fn r) s
                else if currentFace = FACE_POS_X then
                  startCountdown COUNT_NEG_X_SEC (CHR ''X'') 1 FACE_POS_X (ms_fn r) s
                else if currentFace = FACE_POS_Y then
                  startCountdown COUNT_POS_Y_SEC (CHR ''Y'') 2 FACE_POS_Y (ms_fn r) s
                else if currentFace = FACE_NEG_X then
                  startCountdown COUNT_POS_X_SEC (CHR ''X'') 3 FACE_NEG_X (ms_fn r) s
                else s)
      | STATE_COUNTDOWN \<Rightarrow> Some (updateCountdown s r)
      | STATE_ALARM \<Rightarrow> updateAlarm s r)"

text \<open>
  One pass of \<^verbatim>\<open>loop()\<close>, without the closing \<^verbatim>\<open>delay(50)\<close>, which only paces the
  passes. The result is \<open>None\<close> only when an array was read out of bounds.
\<close>

definition loop :: "ulong state \<Rightarrow> ulong reading \<Rightarrow> ulong state option" where
  "loop s r =
     (let currentFace = detectFace (acc_x r) (acc_y r) (acc_z r);
          now = ms_loop r
      in case loop_axis_change currentFace now s of
           Interrupt \<Rightarrow> Some (goToMenu s)
         | Continue s1 \<Rightarrow> loop_switch currentFace s1 r)"

text \<open>The globals as their initialisers leave them, before \<^verbatim>\<open>setup()\<close> has run.\<close>

definition boot :: "ulong state" where
  "boot = \<lparr>currentState = STATE_MENU, activeFace = FACE_NONE,
           countdownTotalSec = 0, countdownRemainingSec = 0,
           countdownAxisLabel = CHR ''?'', lastCountdownTick = 0,
           countdownRotation = 0, lastAlarmToggleMs = 0, alarmOutputState = False,
           axisChangePending = False, axisChangeStartMs = 0,
           currentNoteIndex = 0, noteStartMs = 0,
           led_pin = False, piezo_pin = False, tone_hz = None, display = ScreenBlank\<rparr>"

text \<open>
  \<^verbatim>\<open>setup()\<close>. The two arguments are what \<^verbatim>\<open>display.begin\<close> and \<^verbatim>\<open>lis.begin\<close>
  return; when either fails the sketch spins in \<^verbatim>\<open>while (1) delay(10)\<close> and never
  reaches \<^verbatim>\<open>loop()\<close>, which is the result \<open>None\<close>.
\<close>

definition setup_sketch :: "bool \<Rightarrow> bool \<Rightarrow> ulong state option" where
  "setup_sketch display_ok lis_ok =
     (if \<not> display_ok then None
      else if \<not> lis_ok then None
      else Some (goToMenu (boot\<lparr>display := ScreenBlank, piezo_pin := False, led_pin := False\<rparr>)))"

text \<open>
  The state in which the first pass of \<^verbatim>\<open>loop()\<close> starts: the one \<^verbatim>\<open>setup()\<close>
  leaves when both devices answer.
\<close>

definition ready :: "ulong state" where
  "ready = goToMenu (boot\<lparr>display := ScreenBlank, piezo_pin := False, led_pin := False\<rparr>)"

text \<open>Consecutive passes of \<^verbatim>\<open>loop()\<close>, one per reading.\<close>

fun run :: "ulong state \<Rightarrow> ulong reading list \<Rightarrow> ulong state option" where
  "run s [] = Some s"
| "run s (r # rs) = (case loop s r of None \<Rightarrow> None | Some s' \<Rightarrow> run s' rs)"

text \<open>The states the sketch can be in between two passes.\<close>

inductive reachable :: "ulong state \<Rightarrow> bool" where
  reachable_ready: "reachable ready"
| reachable_loop: "reachable s \<Longrightarrow> loop s r = Some s' \<Longrightarrow> reachable s'"

section \<open>Inputs and invariant used in the statements\<close>

text \<open>
  A pass during which the clock does not advance: all the \<^verbatim>\<open>millis()\<close> calls of the
  pass return \<open>t\<close>, and the accelerometer reports \<open>(x, y, z)\<close>.
\<close>

definition at_ms :: "cfloat \<Rightarrow> cfloat \<Rightarrow> cfloat \<Rightarrow> 't \<Rightarrow> 't reading" where
  "at_ms x y z t = \<lparr>acc_x = x, acc_y = y, acc_z = z,
                     ms_loop = t, ms_fn = t, ms_alarm1 = t, ms_alarm2 = t\<rparr>"

text \<open>The same sample on a row of passes, at the offsets \<open>ds\<close> (in ms) from \<open>T\<close>.\<close>

definition held :: "cfloat \<Rightarrow> cfloat \<Rightarrow> cfloat \<Rightarrow> ulong \<Rightarrow> ulong list \<Rightarrow> ulong reading list" where
  "held x y z T ds = map (\<lambda>d. at_ms x y z (T + d)) ds"

text \<open>
  The same sample on \<open>n\<close> passes that follow the time \<open>T\<close> at a steady pace of \<open>d\<close>
  ms: at \<open>T + d\<close>, \<open>T + 2 d\<close>, up to \<open>T + n d\<close>. The closing \<^verbatim>\<open>delay(50)\<close> of
  \<^verbatim>\<open>loop()\<close> sets the pace: 50 ms when the rest of a pass takes no time, more when it
  does.
\<close>

definition polls ::
  "ulong \<Rightarrow> cfloat \<Rightarrow> cfloat \<Rightarrow> cfloat \<Rightarrow> ulong \<Rightarrow> nat \<Rightarrow> ulong reading list" where
  "polls d x y z T n = map (\<lambda>k. at_ms x y z (T + d * of_nat k)) [1..<Suc n]"

section \<open>The sketch on a clock that does not wrap\<close>

text \<open>
  For the comparison with an unwrapped clock: the same sketch with timestamps that are
  unbounded integers (milliseconds since start, never wrapping) and every elapsed time
  the plain difference \<open>now - anchor\<close>. Only the functions that read or compare the
  clock are repeated; \<open>goToMenu\<close>, \<open>drawMenu\<close> and \<open>drawCountdownScreen\<close> do not
  depend on the type of a timestamp.
\<close>

definition startCountdown_unwrapped ::
  "int \<Rightarrow> char \<Rightarrow> 8 word \<Rightarrow> Face \<Rightarrow> int \<Rightarrow> int state \<Rightarrow> int state" where
  "startCountdown_unwrapped seconds axisLabel rotationIndex face now s =
     drawCountdownScreen
       (s\<lparr>countdownTotalSec := seconds, countdownRemainingSec := seconds,
          countdownAxisLabel := axisLabel, countdownRotation := rotationIndex,
          lastCountdownTick := now, currentState := STATE_COUNTDOWN,
          activeFace := face, axisChangePending := False\<rparr>)"

definition startAlarm_unwrapped :: "int \<Rightarrow> int \<Rightarrow> int state \<Rightarrow> int state" where
  "startAlarm_unwrapped t1 t2 s =
     (let s1 = s\<lparr>currentState := STATE_ALARM, lastAlarmToggleMs := t1,
                  alarmOutputState := False, currentNoteIndex := 0, noteStartMs := t2,
                  led_pin := False, piezo_pin := False\<rparr>;
          freq = melody ! nat (currentNoteIndex s1);
          s2 = s1\<lparr>tone_hz := (if freq > 0 then Some freq else None)\<rparr>
      in s2\<lparr>display := ScreenAlarm (countdownRotation s2)\<rparr>)"

definition updateCountdown_unwrapped :: "int state \<Rightarrow> int reading \<Rightarrow> int state" where
  "updateCountdown_unwrapped s r =
     (if currentState s \<noteq> STATE_COUNTDOWN then s
      else
        let now = ms_fn r in
        if now - lastCountdownTick s \<ge> 1000 then
          (let s1 = s\<lparr>lastCountdownTick := now\<rparr> in
           if countdownRemainingSec s1 > 0 then
             drawCountdownScreen (s1\<lparr>countdownRemainingSec := countdownRemainingSec s1 - 1\<rparr>)
           else startAlarm_unwrapped (ms_alarm1 r) (ms_alarm2 r) s1)
        else s)"

definition updateAlarm_unwrapped :: "int state \<Rightarrow> int reading \<Rightarrow> int state option" where
  "updateAlarm_unwrapped s r =
     (if currentState s \<noteq> STATE_ALARM then Some s
      else
        let now = ms_fn r;
            s1 = (if now - lastAlarmToggleMs s \<ge> 1000 then
                    (let s' = s\<lparr>lastAlarmToggleMs := now,
                                 alarmOutputState := \<not> alarmOutputState s\<rparr>
                     in s'\<lparr>led_pin := alarmOutputState s'\<rparr>)
                  else s)
        in
        case array_read noteDurations (currentNoteIndex s1) of
          None \<Rightarrow> None
        | Some d \<Rightarrow>
            if now - noteStartMs s1 \<ge> d then
              (let i1 = currentNoteIndex s1 + 1;
                   i2 = (if i1 \<ge> NUM_NOTES then 0 else i1);
                   s2 = s1\<lparr>currentNoteIndex := i2, noteStartMs := now\<rparr>
               in case array_read melody (currentNoteIndex s2) of
                    None \<Rightarrow> None
                  | Some freq \<Rightarrow> Some (s2\<lparr>tone_hz := (if freq > 0 then Some freq else None)\<rparr>))
            else Some s1)"

definition loop_axis_change_unwrapped :: "Face \<Rightarrow> int \<Rightarrow> int state \<Rightarrow> int tracked" where
  "loop_axis_change_unwrapped currentFace now s =
     (if currentState s = STATE_COUNTDOWN \<or> currentState s = STATE_ALARM then
        (if currentFace = activeFace s \<and> currentFace \<noteq> FACE_NONE then
           Continue (s\<lparr>axisChangePending := False\<rparr>)
         else if \<not> axisChangePending s then
           Continue (s\<lparr>axisChangePending := True, axisChangeStartMs := now\<rparr>)
         else if now - axisChangeStartMs s \<ge> 500 then Interrupt
         else Continue s)
      else Continue (s\<lparr>axisChangePending := False, activeFace := FACE_NONE\<rparr>))"

definition loop_switch_unwrapped :: "Face \<Rightarrow> int state \<Rightarrow> int reading \<Rightarrow> int state option" where
  "loop_switch_unwrapped currentFace s r =
     (case currentState s of
        STATE_MENU \<Rightarrow>
          Some (if currentFace = FACE_NEG_Y then
                  startCountdown_unwrapped COUNT_NEG_Y_SEC (CHR ''Y'') 0 FACE_NEG_Y (ms_fn r) s
                else if currentFace = FACE_POS_X then
                  startCountdown_unwrapped COUNT_NEG_X_SEC (CHR ''X'') 1 FACE_POS_X (ms_fn r) s
                else if currentFace = FACE_POS_Y then
                  startCountdown_unwrapped COUNT_POS_Y_SEC (CHR ''Y'') 2 FACE_POS_Y (ms_fn r) s
                else if currentFace = FACE_NEG_X then
                  startCountdown_unwrapped COUNT_POS_X_SEC (CHR ''X'') 3 FACE_NEG_X (ms_fn r) s
                else s)
      | STATE_COUNTDOWN \<Rightarrow> Some (updateCountdown_unwrapped s r)
      | STATE_ALARM \<Rightarrow> updateAlarm_unwrapped s r)"

definition loop_unwrapped :: "int state \<Rightarrow> int reading \<Rightarrow> int state option" where
  "loop_unwrapped s r =
     (let currentFace = detectFace (acc_x r) (acc_y r) (acc_z r);
          now = ms_loop r
      in case loop_axis_change_unwrapped currentFace now s of
           Interrupt \<Rightarrow> Some (goToMenu s)
         | Continue s1 \<Rightarrow> loop_switch_unwrapped currentFace s1 r)"

fun run_unwrapped :: "int state \<Rightarrow> int reading list \<Rightarrow> int state option" where
  "run_unwrapped s [] = Some s"
| "run_unwrapped s (r # rs) =
     (case loop_unwrapped s r of None \<Rightarrow> None | Some s' \<Rightarrow> run_unwrapped s' rs)"

text \<open>The state in which the first pass starts, on the unwrapped clock.\<close>

definition ready_unwrapped :: "int state" where
  "ready_unwrapped =
     \<lparr>currentState = STATE_MENU, activeFace = FACE_NONE,
      countdownTotalSec = 0, countdownRemainingSec = 0,
      countdownAxisLabel = CHR ''?'', lastCountdownTick = 0,
      countdownRotation = 0, lastAlarmToggleMs = 0, alarmOutputState = False,
      axisChangePending = False, axisChangeStartMs = 0,
      currentNoteIndex = 0, noteStartMs = 0,
      led_pin = False, piezo_pin = False, tone_hz = None, display = ScreenMenu\<rparr>"

text \<open>What the 32-bit clock shows of an unwrapped state and of an unwrapped reading.\<close>

definition wrap_state :: "int state \<Rightarrow> ulong state" where
  "wrap_state u =
     \<lparr>currentState = currentState u, activeFace = activeFace u,
      countdownTotalSec = countdownTotalSec u, countdownRemainingSec = countdownRemainingSec u,
      countdownAxisLabel = countdownAxisLabel u,
      lastCountdownTick = word_of_int (lastCountdownTick u),
      countdownRotation = countdownRotation u,
      lastAlarmToggleMs = word_of_int (lastAlarmToggleMs u),
      alarmOutputState = alarmOutputState u, axisChangePending = axisChangePending u,
      axisChangeStartMs = word_of_int (axisChangeStartMs u),
      currentNoteIndex = currentNoteIndex u, noteStartMs = word_of_int (noteStartMs u),
      led_pin = led_pin u, piezo_pin = piezo_pin u, tone_hz = tone_hz u,
      display = display u\<rparr>"

definition wrap_reading :: "int reading \<Rightarrow> ulong reading" where
  "wrap_reading q =
     \<lparr>acc_x = acc_x q, acc_y = acc_y q, acc_z = acc_z q,
      ms_loop = word_of_int (ms_loop q), ms_fn = word_of_int (ms_fn q),
      ms_alarm1 = word_of_int (ms_alarm1 q), ms_alarm2 = word_of_int (ms_alarm2 q)\<rparr>"

text \<open>The clock reading \<open>now\<close> is not before the anchor and less than \<open>2^32\<close> ms after it.\<close>

definition within_wrap :: "int \<Rightarrow> int \<Rightarrow> bool" where
  "within_wrap anchor now = (0 \<le> now - anchor \<and> now - anchor < 2 ^ 32)"

text \<open>
  The clock over one pass that follows a pass begun at \<open>l\<close> and ended at \<open>e\<close>: it
  does not run backwards, and from the beginning of the earlier pass to the end of this
  one less than \<open>2^32 - 1000\<close> ms go by (49.7 days). \<open>clock_ok\<close> asks this of every
  pass of a run.
\<close>

definition pass_clock_ok :: "int \<Rightarrow> int \<Rightarrow> int reading \<Rightarrow> bool" where
  "pass_clock_ok l e q =
     (e \<le> ms_loop q \<and> ms_loop q \<le> ms_fn q \<and> ms_fn q \<le> ms_alarm1 q
      \<and> ms_alarm1 q \<le> ms_alarm2 q \<and> ms_alarm2 q - l < 2 ^ 32 - 1000)"

fun clock_ok :: "int \<Rightarrow> int \<Rightarrow> int reading list \<Rightarrow> bool" where
  "clock_ok l e [] = True"
| "clock_ok l e (q # qs) = (pass_clock_ok l e q \<and> clock_ok (ms_loop q) (ms_alarm2 q) qs)"

text \<open>
  An anchor is fresh when it was set less than 1000 ms before the last pass began and
  not after it ended. \<open>anchors_fresh\<close> asks it of the anchors the next pass can compare
  with: the start of an open axis-change window, the last countdown tick while counting
  down, the last LED toggle and the start of the note during the alarm.
\<close>

definition fresh :: "int \<Rightarrow> int \<Rightarrow> int \<Rightarrow> bool" where
  "fresh l e a = (l - 1000 < a \<and> a \<le> e)"

definition anchors_fresh :: "int state \<Rightarrow> int \<Rightarrow> int \<Rightarrow> bool" where
  "anchors_fresh u l e =
     ((currentState u \<noteq> STATE_MENU \<and> axisChangePending u \<longrightarrow> fresh l e (axisChangeStartMs u))
      \<and> (currentState u = STATE_COUNTDOWN \<longrightarrow> fresh l e (lastCountdownTick u))
      \<and> (currentState u = STATE_ALARM \<longrightarrow>
            fresh l e (lastAlarmToggleMs u) \<and> fresh l e (noteStartMs u)))"

section \<open>Invariant of the reachable states\<close>

text \<open>What holds of the globals between any two passes (proved below for \<open>reachable\<close>).\<close>

definition state_inv :: "ulong state \<Rightarrow> bool" where
  "state_inv s =
     (0 \<le> countdownRemainingSec s \<and> countdownRemainingSec s \<le> countdownTotalSec s
      \<and> 0 \<le> currentNoteIndex s \<and> currentNoteIndex s < 13
      \<and> (currentState s \<noteq> STATE_MENU \<longrightarrow> activeFace s \<noteq> FACE_NONE))"

section \<open>Basic facts\<close>

lemmas consts_defs =
  COUNT_NEG_Y_SEC_def COUNT_POS_X_SEC_def COUNT_POS_Y_SEC_def COUNT_NEG_X_SEC_def
  ALARM_TOGGLE_MS_def AXIS_CHANGE_BUFFER_MS_def

lemmas band_defs = f_ge_def f_gt_def AXIS_G_MIN_def AXIS_G_MAX_def

lemmas step_defs =
  loop_def loop_axis_change_def loop_switch_def startCountdown_def drawCountdownScreen_def
  updateCountdown_def startAlarm_def goToMenu_def drawMenu_def updateAlarm_def array_read_def
  at_ms_def held_def Let_def

lemma NUM_NOTES_13: "NUM_NOTES = 13"
  by (simp add: NUM_NOTES_def melody_def)

lemma length_melody: "length melody = 13"
  by (simp add: melody_def)

lemma length_noteDurations: "length noteDurations = 13"
  by (simp add: noteDurations_def)

lemmas start_defs = ready_def boot_def NUM_NOTES_13 melody_def noteDurations_def

lemma setup_ready: "setup_sketch True True = Some ready"
  by (simp add: setup_sketch_def ready_def)

lemma detect_neg_y: "detectFace (Fin 0) (Fin (- 10)) (Fin 0) = FACE_NEG_Y"
  by (simp add: detectFace_def band_defs)

lemma detect_none: "detectFace (Fin 0) (Fin 0) (Fin 10) = FACE_NONE"
  by (simp add: detectFace_def band_defs)

text \<open>A magnitude inside the band is finite, so \<^verbatim>\<open>>=\<close> both ways makes two values equal.\<close>

lemma in_band_antisym:
  assumes "f_ge a AXIS_G_MIN" and "f_le a AXIS_G_MAX" and "f_ge m a" and "f_ge a m"
  shows "m = a"
  using assms by (cases a; cases m) (auto simp: band_defs)

subsection \<open>What one call can do\<close>

lemma updateAlarm_cases:
  assumes "updateAlarm s r = Some s'"
  shows "currentState s' = currentState s \<and> activeFace s' = activeFace s
       \<and> countdownTotalSec s' = countdownTotalSec s
       \<and> countdownRemainingSec s' = countdownRemainingSec s
       \<and> axisChangePending s' = axisChangePending s
       \<and> axisChangeStartMs s' = axisChangeStartMs s
       \<and> (0 \<le> currentNoteIndex s \<and> currentNoteIndex s < 13 \<longrightarrow>
             0 \<le> currentNoteIndex s' \<and> currentNoteIndex s' < 13)"
  using assms
  by (auto simp: updateAlarm_def array_read_def Let_def NUM_NOTES_13 length_melody
        length_noteDurations split: option.splits if_splits)

lemma updateAlarm_Some:
  assumes "0 \<le> currentNoteIndex s" and "currentNoteIndex s < 13"
  shows "\<exists>s'. updateAlarm s r = Some s'"
  using assms
  by (auto simp: updateAlarm_def array_read_def Let_def NUM_NOTES_13 length_melody
        length_noteDurations split: option.splits)

lemma updateCountdown_cases:
  "updateCountdown s r = s
   \<or> (currentState s = STATE_COUNTDOWN \<and> 0 < countdownRemainingSec s
       \<and> updateCountdown s r = s\<lparr>lastCountdownTick := ms_fn r,
             countdownRemainingSec := countdownRemainingSec s - 1,
             display := ScreenCountdown (countdownRotation s) (countdownRemainingSec s - 1)\<rparr>)
   \<or> (currentState s = STATE_COUNTDOWN \<and> countdownRemainingSec s \<le> 0
       \<and> updateCountdown s r =
           startAlarm (ms_alarm1 r) (ms_alarm2 r) (s\<lparr>lastCountdownTick := ms_fn r\<rparr>))"
  by (simp add: updateCountdown_def Let_def drawCountdownScreen_def)

lemma loop_axis_change_Continue:
  assumes "loop_axis_change f now s = Continue s1"
  shows "currentState s1 = currentState s
       \<and> countdownTotalSec s1 = countdownTotalSec s
       \<and> countdownRemainingSec s1 = countdownRemainingSec s
       \<and> currentNoteIndex s1 = currentNoteIndex s"
  using assms by (auto simp: loop_axis_change_def split: if_splits)

lemma loop_Interrupt:
  assumes "loop_axis_change (detectFace (acc_x r) (acc_y r) (acc_z r)) (ms_loop r) s = Interrupt"
  shows "loop s r = Some (goToMenu s)"
  using assms by (simp add: loop_def)

lemma loop_Continue:
  assumes "loop_axis_change (detectFace (acc_x r) (acc_y r) (acc_z r)) (ms_loop r) s = Continue s1"
  shows "loop s r = loop_switch (detectFace (acc_x r) (acc_y r) (acc_z r)) s1 r"
  using assms by (simp add: loop_def)

subsection \<open>The invariant of the reachable states\<close>

lemma state_inv_ready: "state_inv ready"
  by (simp add: state_inv_def ready_def boot_def goToMenu_def drawMenu_def)

lemma state_inv_loop:
  assumes "state_inv s" and "loop s r = Some s'"
  shows "state_inv s'"
proof (cases "loop_axis_change (detectFace (acc_x r) (acc_y r) (acc_z r)) (ms_loop r) s")
  case Interrupt
  with assms show ?thesis
    by (auto simp: loop_def Let_def state_inv_def goToMenu_def drawMenu_def)
next
  case (Continue s1)
  then have s1: "state_inv s1" "currentState s1 = currentState s"
    using assms(1)
    by (auto simp: loop_axis_change_def state_inv_def split: if_splits)
       (cases "currentState s"; simp)+
  from Continue assms(2)
  have sw: "loop_switch (detectFace (acc_x r) (acc_y r) (acc_z r)) s1 r = Some s'"
    by (simp add: loop_def Let_def)
  show ?thesis
  proof (cases "currentState s1")
    case STATE_MENU
    with sw s1 show ?thesis
      by (auto simp: loop_switch_def state_inv_def startCountdown_def drawCountdownScreen_def
            consts_defs split: if_splits)
  next
    case STATE_COUNTDOWN
    with sw have "s' = updateCountdown s1 r" by (simp add: loop_switch_def)
    with s1 STATE_COUNTDOWN updateCountdown_cases [of s1 r] show ?thesis
      by (auto simp: state_inv_def startAlarm_def Let_def)
  next
    case STATE_ALARM
    with sw have "updateAlarm s1 r = Some s'" by (simp add: loop_switch_def)
    from updateAlarm_cases [OF this] s1 show ?thesis
      by (auto simp: state_inv_def)
  qed
qed

lemma reachable_inv: "reachable s \<Longrightarrow> state_inv s"
  by (induction rule: reachable.induct) (auto intro: state_inv_ready state_inv_loop)

lemma loop_ready_neg_y:
  "loop ready (at_ms (Fin 0) (Fin (- 10)) (Fin 0) 0) =
     Some (startCountdown 5 (CHR ''Y'') 0 FACE_NEG_Y 0 ready)"
  by (simp add: loop_def at_ms_def detect_neg_y loop_axis_change_def loop_switch_def ready_def
        goToMenu_def drawMenu_def boot_def startCountdown_def drawCountdownScreen_def consts_defs)

subsection \<open>Runs\<close>

lemma run_snoc:
  "run s (rs @ [r]) = (case run s rs of None \<Rightarrow> None | Some s' \<Rightarrow> loop s' r)"
  by (induction rs arbitrary: s) (auto split: option.splits)

lemma polls_Suc:
  "polls d x y z T (Suc n) = polls d x y z T n @ [at_ms x y z (T + d * of_nat (Suc n))]"
  by (simp add: polls_def)

lemma run_reachable:
  assumes "reachable s" and "run s rs = Some s'"
  shows "reachable s'"
  using assms
  by (induction rs arbitrary: s) (auto split: option.splits intro: reachable_loop)

section \<open>Orientation classifier\<close>

text \<open>
  Claim C6. Take any acceleration sample and any of its axes whose absolute value is
  at least the absolute value of each of the three axes (a dominant axis; at a tie
  there are several, all of one magnitude \<open>m\<close>). When \<open>m\<close> is not inside the band
  from \<open>AXIS_G_MIN\<close> (9.0) to \<open>AXIS_G_MAX\<close> (11.5), \<open>detectFace\<close> returns
  \<open>FACE_NONE\<close>.
\<close>

theorem detectFace_out_of_band:
  assumes dom: "m \<in> {fabsf x, fabsf y, fabsf z}"
      and ge: "f_ge m (fabsf x)" "f_ge m (fabsf y)" "f_ge m (fabsf z)"
      and out: "\<not> (f_ge m AXIS_G_MIN \<and> f_le m AXIS_G_MAX)"
  shows "detectFace x y z = FACE_NONE"
proof (rule ccontr)
  assume "detectFace x y z \<noteq> FACE_NONE"
  then consider
      (Y) "f_ge (fabsf y) (fabsf x)" "f_ge (fabsf y) (fabsf z)"
          "f_ge (fabsf y) AXIS_G_MIN" "f_le (fabsf y) AXIS_G_MAX"
    | (X) "f_ge (fabsf x) (fabsf y)" "f_ge (fabsf x) (fabsf z)"
          "f_ge (fabsf x) AXIS_G_MIN" "f_le (fabsf x) AXIS_G_MAX"
    by (auto simp: detectFace_def Let_def split: if_splits)
  then show False
  proof cases
    case Y
    have "f_ge (fabsf y) m" using dom Y ge(2) by auto
    with Y ge(2) have "m = fabsf y" by (intro in_band_antisym)
    with Y out show False by simp
  next
    case X
    have "f_ge (fabsf x) m" using dom X ge(1) by auto
    with X ge(1) have "m = fabsf x" by (intro in_band_antisym)
    with X out show False by simp
  qed
qed

theorem detectFace_out_of_band_witness:
  "Fin 12 \<in> {fabsf (Fin 3), fabsf (Fin (- 12)), fabsf (Fin 1)}
   \<and> f_ge (Fin 12) (fabsf (Fin 3)) \<and> f_ge (Fin 12) (fabsf (Fin (- 12)))
   \<and> f_ge (Fin 12) (fabsf (Fin 1))
   \<and> \<not> (f_ge (Fin 12) AXIS_G_MIN \<and> f_le (Fin 12) AXIS_G_MAX)
   \<and> detectFace (Fin 3) (Fin (- 12)) (Fin 1) = FACE_NONE"
  using detectFace_out_of_band [of "Fin 12" "Fin 3" "Fin (- 12)" "Fin 1"]
  by (simp add: band_defs)

text \<open>
  Claim C7. \<open>detectFace\<close> is a function of the sample alone (it takes and returns no
  state, and is total), and its three tests are tried in the order Y, X, Z:
  \<^item> when \<open>|y|\<close> is at least \<open>|x|\<close> and \<open>|z|\<close> (ties included) and inside the band,
    the result is the Y face, positive when \<open>y > 0\<close> and negative otherwise;
  \<^item> when \<open>|x|\<close> is greater than \<open>|y|\<close>, at least \<open>|z|\<close> (a tie with Z included) and
    inside the band, the result is the X face chosen by the sign of \<open>x\<close>;
  \<^item> when \<open>|z|\<close> is greater than both \<open>|x|\<close> and \<open>|y|\<close>, so that Z is the dominant
    axis under that priority, the result is \<open>FACE_NONE\<close>, inside the band or not.
\<close>

theorem detectFace_priority:
  "(f_ge (fabsf y) (fabsf x) \<and> f_ge (fabsf y) (fabsf z)
      \<and> f_ge (fabsf y) AXIS_G_MIN \<and> f_le (fabsf y) AXIS_G_MAX \<longrightarrow>
        detectFace x y z = (if f_gt y (Fin 0) then FACE_POS_Y else FACE_NEG_Y))
   \<and> (f_gt (fabsf x) (fabsf y) \<and> f_ge (fabsf x) (fabsf z)
      \<and> f_ge (fabsf x) AXIS_G_MIN \<and> f_le (fabsf x) AXIS_G_MAX \<longrightarrow>
        detectFace x y z = (if f_gt x (Fin 0) then FACE_POS_X else FACE_NEG_X))
   \<and> (f_gt (fabsf z) (fabsf x) \<and> f_gt (fabsf z) (fabsf y) \<longrightarrow>
        detectFace x y z = FACE_NONE)"
proof (intro conjI impI)
  assume "f_ge (fabsf y) (fabsf x) \<and> f_ge (fabsf y) (fabsf z)
      \<and> f_ge (fabsf y) AXIS_G_MIN \<and> f_le (fabsf y) AXIS_G_MAX"
  then show "detectFace x y z = (if f_gt y (Fin 0) then FACE_POS_Y else FACE_NEG_Y)"
    by (simp add: detectFace_def)
next
  assume a: "f_gt (fabsf x) (fabsf y) \<and> f_ge (fabsf x) (fabsf z)
      \<and> f_ge (fabsf x) AXIS_G_MIN \<and> f_le (fabsf x) AXIS_G_MAX"
  then have "\<not> f_ge (fabsf y) (fabsf x)" and "f_ge (fabsf x) (fabsf y)"
    by (cases x; cases y; simp add: f_ge_def f_gt_def)+
  with a show "detectFace x y z = (if f_gt x (Fin 0) then FACE_POS_X else FACE_NEG_X)"
    by (simp add: detectFace_def)
next
  assume a: "f_gt (fabsf z) (fabsf x) \<and> f_gt (fabsf z) (fabsf y)"
  then have "\<not> f_ge (fabsf y) (fabsf z)" and "\<not> f_ge (fabsf x) (fabsf z)"
    by (cases x; cases y; cases z; simp add: f_ge_def f_gt_def)+
  then show "detectFace x y z = FACE_NONE"
    by (simp add: detectFace_def)
qed

theorem detectFace_priority_witness:
  "detectFace (Fin 10) (Fin (- 10)) (Fin 10) = FACE_NEG_Y
   \<and> detectFace (Fin (- 10)) (Fin 10) (Fin 0) = FACE_POS_Y
   \<and> detectFace (Fin 10) (Fin 2) (Fin (- 10)) = FACE_POS_X
   \<and> detectFace (Fin (- 10)) (Fin 2) (Fin 10) = FACE_NEG_X
   \<and> detectFace (Fin 1) (Fin 2) (Fin 10) = FACE_NONE"
  using detectFace_priority [of "Fin (- 10)" "Fin 10" "Fin 10"]
    detectFace_priority [of "Fin 10" "Fin (- 10)" "Fin 0"]
    detectFace_priority [of "Fin 2" "Fin 10" "Fin (- 10)"]
    detectFace_priority [of "Fin 2" "Fin (- 10)" "Fin 10"]
    detectFace_priority [of "Fin 2" "Fin 1" "Fin 10"]
  by (simp add: band_defs)

section \<open>Timer state machine\<close>

lemma reachable_started: "reachable (startCountdown 5 (CHR ''Y'') 0 FACE_NEG_Y 0 ready)"
  by (rule reachable_loop [OF reachable_ready loop_ready_neg_y])

lemma loop_total:
  assumes "0 \<le> currentNoteIndex s" and "currentNoteIndex s < 13"
  shows "\<exists>s'. loop s r = Some s'"
proof (cases "loop_axis_change (detectFace (acc_x r) (acc_y r) (acc_z r)) (ms_loop r) s")
  case Interrupt
  then show ?thesis by (simp add: loop_Interrupt)
next
  case (Continue s1)
  note c = loop_axis_change_Continue [OF Continue]
  with assms updateAlarm_Some [of s1 r] show ?thesis
    unfolding loop_Continue [OF Continue]
    by (cases "currentState s1") (auto simp: loop_switch_def)
qed

text \<open>
  Claim C1. On a pass that starts in \<open>STATE_MENU\<close> and on which \<open>detectFace\<close>
  reports a face other than \<open>FACE_NONE\<close>, \<open>loop\<close> moves to \<open>STATE_COUNTDOWN\<close>
  with that face as the active face and sets \<open>countdownRemainingSec\<close> and
  \<open>countdownTotalSec\<close> both to the duration wired to the face: 5 for \<open>FACE_NEG_Y\<close>,
  15 for \<open>FACE_POS_Y\<close>, 30 (the constant \<open>COUNT_NEG_X_SEC\<close>) for \<open>FACE_POS_X\<close> and
  10 (the constant \<open>COUNT_POS_X_SEC\<close>) for \<open>FACE_NEG_X\<close>. The start happens once:
  whatever the next pass reads, it stays in \<open>STATE_COUNTDOWN\<close> and leaves the total
  as it was set.
\<close>

theorem menu_starts_countdown:
  assumes "currentState s = STATE_MENU"
      and "detectFace (acc_x r) (acc_y r) (acc_z r) = f" and "f \<noteq> FACE_NONE"
  shows "\<exists>s'. loop s r = Some s' \<and> currentState s' = STATE_COUNTDOWN \<and> activeFace s' = f
           \<and> countdownRemainingSec s' = countdownTotalSec s'
           \<and> (f = FACE_NEG_Y \<longrightarrow> countdownTotalSec s' = COUNT_NEG_Y_SEC)
           \<and> (f = FACE_POS_Y \<longrightarrow> countdownTotalSec s' = COUNT_POS_Y_SEC)
           \<and> (f = FACE_POS_X \<longrightarrow> countdownTotalSec s' = COUNT_NEG_X_SEC)
           \<and> (f = FACE_NEG_X \<longrightarrow> countdownTotalSec s' = COUNT_POS_X_SEC)
           \<and> COUNT_NEG_Y_SEC = 5 \<and> COUNT_POS_Y_SEC = 15
           \<and> COUNT_NEG_X_SEC = 30 \<and> COUNT_POS_X_SEC = 10
           \<and> (\<forall>r'. \<exists>s''. loop s' r' = Some s'' \<and> currentState s'' = STATE_COUNTDOWN
                  \<and> countdownTotalSec s'' = countdownTotalSec s')"
proof -
  let ?s0 = "s\<lparr>axisChangePending := False, activeFace := FACE_NONE\<rparr>"
  obtain d l rot where
    s': "loop s r = Some (startCountdown d l rot f (ms_fn r) ?s0)"
    and d: "0 < d" "f = FACE_NEG_Y \<longrightarrow> d = 5" "f = FACE_POS_Y \<longrightarrow> d = 15"
      "f = FACE_POS_X \<longrightarrow> d = 30" "f = FACE_NEG_X \<longrightarrow> d = 10"
    using assms by (cases f) (simp_all add: loop_def loop_axis_change_def loop_switch_def consts_defs)
  let ?s' = "startCountdown d l rot f (ms_fn r) ?s0"
  have next_pass: "\<exists>s''. loop ?s' r' = Some s'' \<and> currentState s'' = STATE_COUNTDOWN
      \<and> countdownTotalSec s'' = countdownTotalSec ?s'" for r'
    using d(1)
    by (simp add: loop_def loop_axis_change_def loop_switch_def startCountdown_def
          drawCountdownScreen_def updateCountdown_def Let_def)
  from s' d next_pass show ?thesis
    by (simp add: startCountdown_def drawCountdownScreen_def consts_defs)
qed

theorem menu_starts_countdown_witness:
  "currentState ready = STATE_MENU
   \<and> detectFace (acc_x (at_ms (Fin 0) (Fin (- 10)) (Fin 0) (0 :: ulong)))
        (acc_y (at_ms (Fin 0) (Fin (- 10)) (Fin 0) (0 :: ulong)))
        (acc_z (at_ms (Fin 0) (Fin (- 10)) (Fin 0) (0 :: ulong))) = FACE_NEG_Y
   \<and> FACE_NEG_Y \<noteq> FACE_NONE
   \<and> (\<exists>s'. loop ready (at_ms (Fin 0) (Fin (- 10)) (Fin 0) 0) = Some s'
         \<and> currentState s' = STATE_COUNTDOWN \<and> countdownRemainingSec s' = 5)"
proof -
  have h1: "currentState ready = STATE_MENU"
    by (simp add: ready_def goToMenu_def drawMenu_def)
  have h2: "detectFace (acc_x (at_ms (Fin 0) (Fin (- 10)) (Fin 0) (0 :: ulong)))
        (acc_y (at_ms (Fin 0) (Fin (- 10)) (Fin 0) (0 :: ulong)))
        (acc_z (at_ms (Fin 0) (Fin (- 10)) (Fin 0) (0 :: ulong))) = FACE_NEG_Y"
    by (simp add: at_ms_def detect_neg_y)
  have h3: "FACE_NEG_Y \<noteq> FACE_NONE" by simp
  from menu_starts_countdown [OF h1 h2 h3] h1 h2 show ?thesis by auto
qed

text \<open>
  The bounds and the transitions of the countdown, for a pass that returned.
\<close>

lemma countdown_safety:
  assumes "reachable s" and "loop s r = Some s'"
  shows "0 \<le> countdownRemainingSec s' \<and> countdownRemainingSec s' \<le> countdownTotalSec s'
       \<and> (currentState s = STATE_COUNTDOWN \<and> currentState s' = STATE_COUNTDOWN \<longrightarrow>
            countdownTotalSec s' = countdownTotalSec s
            \<and> (countdownRemainingSec s' = countdownRemainingSec s
               \<or> countdownRemainingSec s' = countdownRemainingSec s - 1))
       \<and> (currentState s = STATE_COUNTDOWN \<and> currentState s' = STATE_ALARM \<longrightarrow>
            countdownRemainingSec s = 0 \<and> countdownRemainingSec s' = 0)
       \<and> (currentState s \<noteq> STATE_COUNTDOWN \<and> currentState s' = STATE_COUNTDOWN \<longrightarrow>
            currentState s = STATE_MENU \<and> countdownRemainingSec s' = countdownTotalSec s')
       \<and> (currentState s' = STATE_ALARM \<longrightarrow> currentState s \<noteq> STATE_MENU)"
proof -
  let ?f = "detectFace (acc_x r) (acc_y r) (acc_z r)"
  from assms(1) have inv: "state_inv s" by (rule reachable_inv)
  from state_inv_loop [OF inv assms(2)] have inv': "state_inv s'" .
  show ?thesis
  proof (cases "loop_axis_change ?f (ms_loop r) s")
    case Interrupt
    from loop_Interrupt [OF this] assms(2) have "s' = goToMenu s" by simp
    with inv show ?thesis by (simp add: goToMenu_def drawMenu_def state_inv_def)
  next
    case (Continue s1)
    note c = loop_axis_change_Continue [OF Continue]
    from loop_Continue [OF Continue] assms(2)
    have sw: "loop_switch ?f s1 r = Some s'" by simp
    show ?thesis
    proof (cases "currentState s1")
      case STATE_MENU
      with sw c inv show ?thesis
        by (auto simp: loop_switch_def startCountdown_def drawCountdownScreen_def consts_defs
              state_inv_def split: if_splits)
    next
      case STATE_COUNTDOWN
      with sw have "s' = updateCountdown s1 r" by (simp add: loop_switch_def)
      with c inv STATE_COUNTDOWN updateCountdown_cases [of s1 r] show ?thesis
        by (auto simp: state_inv_def startAlarm_def Let_def)
    next
      case STATE_ALARM
      with sw have "updateAlarm s1 r = Some s'" by (simp add: loop_switch_def)
      from updateAlarm_cases [OF this] c inv STATE_ALARM show ?thesis
        by (auto simp: state_inv_def)
    qed
  qed
qed

text \<open>What a pass does to a running countdown, and what a row of one-second passes does.\<close>

lemma countdown_pass:
  assumes "currentState s = STATE_COUNTDOWN"
      and "detectFace (acc_x r) (acc_y r) (acc_z r) = activeFace s"
      and "activeFace s \<noteq> FACE_NONE"
  shows "loop s r = Some (updateCountdown (s\<lparr>axisChangePending := False\<rparr>) r)"
  using assms by (simp add: loop_def loop_axis_change_def loop_switch_def)

lemma second_elapsed:
  "(T + 1000 * of_nat (Suc k)) - (T + 1000 * of_nat k) = (1000 :: ulong)"
  by (simp add: algebra_simps)

lemma countdown_run:
  assumes "currentState s = STATE_COUNTDOWN"
      and "detectFace x y z = activeFace s" and "activeFace s \<noteq> FACE_NONE"
      and "k \<le> nat (countdownRemainingSec s)"
  shows "\<exists>s'. run s (polls 1000 x y z (lastCountdownTick s) k) = Some s'
       \<and> currentState s' = STATE_COUNTDOWN
       \<and> countdownRemainingSec s' = countdownRemainingSec s - int k
       \<and> countdownTotalSec s' = countdownTotalSec s
       \<and> lastCountdownTick s' = lastCountdownTick s + 1000 * of_nat k
       \<and> activeFace s' = activeFace s"
  using assms(4)
proof (induction k)
  case 0
  with assms show ?case by (simp add: polls_def)
next
  case (Suc k)
  then obtain s1 where s1: "run s (polls 1000 x y z (lastCountdownTick s) k) = Some s1"
      "currentState s1 = STATE_COUNTDOWN"
      "countdownRemainingSec s1 = countdownRemainingSec s - int k"
      "countdownTotalSec s1 = countdownTotalSec s"
      "lastCountdownTick s1 = lastCountdownTick s + 1000 * of_nat k"
      "activeFace s1 = activeFace s"
    by auto
  let ?r = "at_ms x y z (lastCountdownTick s + 1000 * of_nat (Suc k))"
  let ?s1 = "s1\<lparr>axisChangePending := False\<rparr>"
  have l: "loop s1 ?r = Some (updateCountdown ?s1 ?r)"
    using s1(2,6) assms(2,3) by (intro countdown_pass) (simp_all add: at_ms_def)
  have due: "ms_fn ?r - lastCountdownTick ?s1 = 1000"
    using second_elapsed [of "lastCountdownTick s" k] s1(5) by (simp add: at_ms_def)
  have pos: "0 < countdownRemainingSec ?s1" using Suc.prems s1(3) by simp
  have u: "updateCountdown ?s1 ?r =
      ?s1\<lparr>lastCountdownTick := ms_fn ?r,
           countdownRemainingSec := countdownRemainingSec ?s1 - 1,
           display := ScreenCountdown (countdownRotation ?s1) (countdownRemainingSec ?s1 - 1)\<rparr>"
    using s1(2) pos due by (simp add: updateCountdown_def Let_def drawCountdownScreen_def)
  have "run s (polls 1000 x y z (lastCountdownTick s) (Suc k)) = Some (updateCountdown ?s1 ?r)"
    by (simp add: polls_Suc run_snoc s1(1) l del: of_nat_Suc)
  then show ?case
    unfolding u using s1 by (simp add: at_ms_def del: of_nat_Suc)
qed

lemma countdown_expires:
  assumes "currentState s = STATE_COUNTDOWN"
      and "detectFace x y z = activeFace s" and "activeFace s \<noteq> FACE_NONE"
      and "0 \<le> countdownRemainingSec s"
  shows "\<exists>s'. run s (polls 1000 x y z (lastCountdownTick s) (Suc (nat (countdownRemainingSec s))))
            = Some s'
       \<and> currentState s' = STATE_ALARM \<and> countdownRemainingSec s' = 0"
proof -
  let ?k = "nat (countdownRemainingSec s)"
  from countdown_run [OF assms(1,2,3) order_refl]
  obtain s1 where s1: "run s (polls 1000 x y z (lastCountdownTick s) ?k) = Some s1"
      "currentState s1 = STATE_COUNTDOWN"
      "countdownRemainingSec s1 = countdownRemainingSec s - int ?k"
      "lastCountdownTick s1 = lastCountdownTick s + 1000 * of_nat ?k"
      "activeFace s1 = activeFace s"
    by auto
  let ?r = "at_ms x y z (lastCountdownTick s + 1000 * of_nat (Suc ?k))"
  let ?s1 = "s1\<lparr>axisChangePending := False\<rparr>"
  have l: "loop s1 ?r = Some (updateCountdown ?s1 ?r)"
    using s1(2,5) assms(2,3) by (intro countdown_pass) (simp_all add: at_ms_def)
  have due: "ms_fn ?r - lastCountdownTick ?s1 = 1000"
    using second_elapsed [of "lastCountdownTick s" ?k] s1(4) by (simp add: at_ms_def)
  have z: "countdownRemainingSec ?s1 = 0" using s1(3) assms(4) by simp
  have u: "currentState (updateCountdown ?s1 ?r) = STATE_ALARM
      \<and> countdownRemainingSec (updateCountdown ?s1 ?r) = 0"
    using s1(2) z due by (simp add: updateCountdown_def Let_def startAlarm_def)
  have "run s (polls 1000 x y z (lastCountdownTick s) (Suc ?k)) = Some (updateCountdown ?s1 ?r)"
    by (simp add: polls_Suc run_snoc s1(1) l del: of_nat_Suc)
  with u show ?thesis by simp
qed

lemma countdown_step:
  assumes "currentState s = STATE_COUNTDOWN" and "activeFace s \<noteq> FACE_NONE"
      and "0 \<le> countdownRemainingSec s" and "loop s r = Some s'"
  shows "(detectFace (acc_x r) (acc_y r) (acc_z r) \<noteq> activeFace s \<and> axisChangePending s
          \<and> AXIS_CHANGE_BUFFER_MS \<le> ms_loop r - axisChangeStartMs s \<longrightarrow>
            currentState s' = STATE_MENU)
     \<and> (\<not> (detectFace (acc_x r) (acc_y r) (acc_z r) \<noteq> activeFace s \<and> axisChangePending s
             \<and> AXIS_CHANGE_BUFFER_MS \<le> ms_loop r - axisChangeStartMs s) \<longrightarrow>
          (1000 \<le> ms_fn r - lastCountdownTick s \<and> 0 < countdownRemainingSec s \<longrightarrow>
             currentState s' = STATE_COUNTDOWN
             \<and> countdownRemainingSec s' = countdownRemainingSec s - 1
             \<and> lastCountdownTick s' = ms_fn r
             \<and> display s' = ScreenCountdown (countdownRotation s) (countdownRemainingSec s - 1))
          \<and> (1000 \<le> ms_fn r - lastCountdownTick s \<and> countdownRemainingSec s = 0 \<longrightarrow>
             currentState s' = STATE_ALARM \<and> countdownRemainingSec s' = 0)
          \<and> (\<not> 1000 \<le> ms_fn r - lastCountdownTick s \<longrightarrow>
             currentState s' = STATE_COUNTDOWN
             \<and> countdownRemainingSec s' = countdownRemainingSec s
             \<and> lastCountdownTick s' = lastCountdownTick s))"
  using assms
  by (auto simp: loop_def loop_axis_change_def loop_switch_def updateCountdown_def Let_def
        drawCountdownScreen_def startAlarm_def goToMenu_def drawMenu_def split: if_splits)

text \<open>
  Claim C2. Let \<open>s\<close> be a state the sketch can reach. The next pass returns a state
  \<open>s'\<close>, and:
  \<^item> \<open>countdownRemainingSec\<close> lies between 0 and \<open>countdownTotalSec\<close> in \<open>s'\<close>; a pass
    from \<open>STATE_COUNTDOWN\<close> to \<open>STATE_COUNTDOWN\<close> keeps the total and either keeps the
    remaining seconds or takes exactly one off (so the value never grows and no value is
    skipped); a pass from \<open>STATE_COUNTDOWN\<close> to \<open>STATE_ALARM\<close> happens only with the
    remaining seconds already at 0, and leaves them at 0; a countdown is entered only
    from the menu, with the remaining seconds equal to the total; and the alarm is never
    entered from the menu;
  \<^item> the countdown moves: from \<open>STATE_COUNTDOWN\<close>, a pass that sees another face with
    the axis-change window open for 500 ms or more returns to the menu; any other pass,
    when 1000 ms or more have gone by since \<open>lastCountdownTick\<close>, takes exactly one off
    the remaining seconds if they are above 0 (re-anchoring the tick at the clock reading
    and drawing the new number) and enters the alarm if they are 0; and when less than
    1000 ms have gone by it leaves the remaining seconds and the tick as they are;
  \<^item> so a session runs down to 0 and then hands off: with the device kept on the
    active face and one pass every 1000 ms counted from the last tick, after \<open>k\<close> passes
    (\<open>k\<close> at most the remaining seconds) the remaining seconds are \<open>k\<close> less and the
    state is still \<open>STATE_COUNTDOWN\<close>, and one pass after they have reached 0 the state
    is \<open>STATE_ALARM\<close> with the remaining seconds at 0.
\<close>

theorem countdown_session:
  assumes "reachable s"
  shows "(\<exists>s'. loop s r = Some s'
       \<and> 0 \<le> countdownRemainingSec s' \<and> countdownRemainingSec s' \<le> countdownTotalSec s'
       \<and> (currentState s = STATE_COUNTDOWN \<and> currentState s' = STATE_COUNTDOWN \<longrightarrow>
            countdownTotalSec s' = countdownTotalSec s
            \<and> (countdownRemainingSec s' = countdownRemainingSec s
               \<or> countdownRemainingSec s' = countdownRemainingSec s - 1))
       \<and> (currentState s = STATE_COUNTDOWN \<and> currentState s' = STATE_ALARM \<longrightarrow>
            countdownRemainingSec s = 0 \<and> countdownRemainingSec s' = 0)
       \<and> (currentState s \<noteq> STATE_COUNTDOWN \<and> currentState s' = STATE_COUNTDOWN \<longrightarrow>
            currentState s = STATE_MENU \<and> countdownRemainingSec s' = countdownTotalSec s')
       \<and> (currentState s' = STATE_ALARM \<longrightarrow> currentState s \<noteq> STATE_MENU)
       \<and> (currentState s = STATE_COUNTDOWN \<longrightarrow>
            (detectFace (acc_x r) (acc_y r) (acc_z r) \<noteq> activeFace s \<and> axisChangePending s
               \<and> AXIS_CHANGE_BUFFER_MS \<le> ms_loop r - axisChangeStartMs s \<longrightarrow>
                 currentState s' = STATE_MENU)
            \<and> (\<not> (detectFace (acc_x r) (acc_y r) (acc_z r) \<noteq> activeFace s
                    \<and> axisChangePending s
                    \<and> AXIS_CHANGE_BUFFER_MS \<le> ms_loop r - axisChangeStartMs s) \<longrightarrow>
                 (1000 \<le> ms_fn r - lastCountdownTick s \<and> 0 < countdownRemainingSec s \<longrightarrow>
                    currentState s' = STATE_COUNTDOWN
                    \<and> countdownRemainingSec s' = countdownRemainingSec s - 1
                    \<and> lastCountdownTick s' = ms_fn r
                    \<and> display s' =
                        ScreenCountdown (countdownRotation s) (countdownRemainingSec s - 1))
                 \<and> (1000 \<le> ms_fn r - lastCountdownTick s \<and> countdownRemainingSec s = 0 \<longrightarrow>
                    currentState s' = STATE_ALARM \<and> countdownRemainingSec s' = 0)
                 \<and> (\<not> 1000 \<le> ms_fn r - lastCountdownTick s \<longrightarrow>
                    currentState s' = STATE_COUNTDOWN
                    \<and> countdownRemainingSec s' = countdownRemainingSec s
                    \<and> lastCountdownTick s' = lastCountdownTick s))))
     \<and> (currentState s = STATE_COUNTDOWN \<and> detectFace x y z = activeFace s \<longrightarrow>
          (k \<le> nat (countdownRemainingSec s) \<longrightarrow>
             (\<exists>s'. run s (polls 1000 x y z (lastCountdownTick s) k) = Some s'
                \<and> currentState s' = STATE_COUNTDOWN
                \<and> countdownRemainingSec s' = countdownRemainingSec s - int k
                \<and> countdownTotalSec s' = countdownTotalSec s
                \<and> lastCountdownTick s' = lastCountdownTick s + 1000 * of_nat k
                \<and> activeFace s' = activeFace s))
          \<and> (\<exists>s'. run s (polls 1000 x y z (lastCountdownTick s)
                            (Suc (nat (countdownRemainingSec s)))) = Some s'
                \<and> currentState s' = STATE_ALARM \<and> countdownRemainingSec s' = 0))"
proof -
  from reachable_inv [OF assms] have inv: "state_inv s" .
  then have b: "0 \<le> currentNoteIndex s" "currentNoteIndex s < 13"
      "0 \<le> countdownRemainingSec s"
    and act: "currentState s = STATE_COUNTDOWN \<Longrightarrow> activeFace s \<noteq> FACE_NONE"
    by (simp_all add: state_inv_def)
  from loop_total [OF b(1,2)] obtain s' where l: "loop s r = Some s'" by blast
  note safe = countdown_safety [OF assms l]
  note prog = countdown_step [OF _ act b(3) l]
  note runs = countdown_run [OF _ _ act, of x y z k] countdown_expires [OF _ _ act b(3), of x y z]
  show ?thesis
    using l safe prog runs
    apply -
    apply (intro conjI)
     apply (rule exI [of _ s'], blast)
    apply blast
    done
qed

theorem countdown_session_witness:
  "reachable (startCountdown 5 (CHR ''Y'') 0 FACE_NEG_Y 0 ready)
   \<and> currentState (startCountdown 5 (CHR ''Y'') 0 FACE_NEG_Y 0 ready) = STATE_COUNTDOWN
   \<and> countdownRemainingSec (startCountdown 5 (CHR ''Y'') 0 FACE_NEG_Y 0 ready) = 5
   \<and> (\<exists>s'. loop (startCountdown 5 (CHR ''Y'') 0 FACE_NEG_Y 0 ready)
              (at_ms (Fin 0) (Fin (- 10)) (Fin 0) 1000) = Some s'
         \<and> currentState s' = STATE_COUNTDOWN \<and> countdownRemainingSec s' = 4)
   \<and> (\<exists>s5. run (startCountdown 5 (CHR ''Y'') 0 FACE_NEG_Y 0 ready)
              (polls 1000 (Fin 0) (Fin (- 10)) (Fin 0) 0 5) = Some s5
         \<and> reachable s5 \<and> currentState s5 = STATE_COUNTDOWN \<and> countdownRemainingSec s5 = 0
         \<and> (\<exists>s'. loop s5 (at_ms (Fin 0) (Fin (- 10)) (Fin 0) 6000) = Some s'
               \<and> currentState s' = STATE_ALARM \<and> countdownRemainingSec s' = 0))
   \<and> (\<exists>s'. run (startCountdown 5 (CHR ''Y'') 0 FACE_NEG_Y 0 ready)
              (polls 1000 (Fin 0) (Fin (- 10)) (Fin 0) 0 6) = Some s'
         \<and> currentState s' = STATE_ALARM \<and> countdownRemainingSec s' = 0)"
proof -
  let ?S = "startCountdown 5 (CHR ''Y'') 0 FACE_NEG_Y 0 ready"
  let ?r1 = "at_ms (Fin 0) (Fin (- 10)) (Fin 0) (1000 :: ulong)"
  let ?r6 = "at_ms (Fin 0) (Fin (- 10)) (Fin 0) (6000 :: ulong)"
  have S: "currentState ?S = STATE_COUNTDOWN" "countdownRemainingSec ?S = 5"
      "lastCountdownTick ?S = 0" "activeFace ?S = FACE_NEG_Y"
    by (simp_all add: startCountdown_def drawCountdownScreen_def)
  have f1: "detectFace (acc_x ?r1) (acc_y ?r1) (acc_z ?r1) = FACE_NEG_Y" "ms_fn ?r1 = 1000"
    and f6: "detectFace (acc_x ?r6) (acc_y ?r6) (acc_z ?r6) = FACE_NEG_Y" "ms_fn ?r6 = 6000"
    by (simp_all add: at_ms_def detect_neg_y)
  note th = countdown_session [OF reachable_started,
      where r = ?r1 and x = "Fin 0" and y = "Fin (- 10)" and z = "Fin 0" and k = 5]
  from th S f1 have a: "\<exists>s'. loop ?S ?r1 = Some s'
         \<and> currentState s' = STATE_COUNTDOWN \<and> countdownRemainingSec s' = 4"
    by (auto simp: detect_neg_y)
  from th S have "\<exists>s5. run ?S (polls 1000 (Fin 0) (Fin (- 10)) (Fin 0) 0 5) = Some s5
         \<and> currentState s5 = STATE_COUNTDOWN \<and> countdownRemainingSec s5 = 0
         \<and> lastCountdownTick s5 = 5000 \<and> activeFace s5 = FACE_NEG_Y"
    by (auto simp: detect_neg_y)
  then obtain s5 where s5: "run ?S (polls 1000 (Fin 0) (Fin (- 10)) (Fin 0) 0 5) = Some s5"
      "currentState s5 = STATE_COUNTDOWN" "countdownRemainingSec s5 = 0"
      "lastCountdownTick s5 = 5000" "activeFace s5 = FACE_NEG_Y"
    by blast
  from run_reachable [OF reachable_started s5(1)] have r5: "reachable s5" .
  from countdown_session [OF r5,
      where r = ?r6 and x = "Fin 0" and y = "Fin (- 10)" and z = "Fin 0" and k = 0] s5 f6
  have b: "\<exists>s'. loop s5 ?r6 = Some s'
         \<and> currentState s' = STATE_ALARM \<and> countdownRemainingSec s' = 0"
    by auto
  have six: "Suc (nat (5 :: int)) = 6" by simp
  from th S have c: "\<exists>s'. run ?S (polls 1000 (Fin 0) (Fin (- 10)) (Fin 0) 0 6) = Some s'
         \<and> currentState s' = STATE_ALARM \<and> countdownRemainingSec s' = 0"
    by (auto simp: detect_neg_y six)
  from a b c s5 r5 S reachable_started show ?thesis by blast
qed

text \<open>
  Claim C5. Let the sketch be counting down with no axis-change window open (the face
  seen on the pass before was the active one, or the countdown has just started). If
  the next pass sees another face, or none, and the pass after it sees the active face
  again, then neither pass goes to the menu: the first opens the window, the second
  closes it, and the active face is unchanged. The times of the two passes play no part,
  so this holds in particular for passes 50 ms apart.
\<close>

theorem flicker_does_not_cancel:
  assumes "reachable s" and "currentState s = STATE_COUNTDOWN" and "\<not> axisChangePending s"
      and "detectFace (acc_x r1) (acc_y r1) (acc_z r1) \<noteq> activeFace s"
      and "detectFace (acc_x r2) (acc_y r2) (acc_z r2) = activeFace s"
  shows "\<exists>s1 s2. loop s r1 = Some s1 \<and> loop s1 r2 = Some s2
           \<and> currentState s1 \<noteq> STATE_MENU \<and> axisChangePending s1
           \<and> currentState s2 \<noteq> STATE_MENU \<and> \<not> axisChangePending s2
           \<and> activeFace s2 = activeFace s"
proof -
  let ?f1 = "detectFace (acc_x r1) (acc_y r1) (acc_z r1)"
  let ?f2 = "detectFace (acc_x r2) (acc_y r2) (acc_z r2)"
  let ?s0 = "s\<lparr>axisChangePending := True, axisChangeStartMs := ms_loop r1\<rparr>"
  from assms(1,2) have act: "activeFace s \<noteq> FACE_NONE"
    using reachable_inv [of s] by (simp add: state_inv_def)
  have "loop_axis_change ?f1 (ms_loop r1) s = Continue ?s0"
    using assms(2,3,4) by (simp add: loop_axis_change_def)
  then have l1: "loop s r1 = Some (updateCountdown ?s0 r1)"
    using assms(2) by (simp add: loop_def loop_switch_def)
  let ?s1 = "updateCountdown ?s0 r1"
  have s1: "(currentState ?s1 = STATE_COUNTDOWN \<or> currentState ?s1 = STATE_ALARM \<and> currentNoteIndex ?s1 = 0)
      \<and> axisChangePending ?s1 \<and> activeFace ?s1 = activeFace s"
    using assms(2) updateCountdown_cases [of ?s0 r1] by (auto simp: startAlarm_def Let_def)
  let ?s1' = "?s1\<lparr>axisChangePending := False\<rparr>"
  have "loop_axis_change ?f2 (ms_loop r2) ?s1 = Continue ?s1'"
    using s1 assms(5) act by (auto simp: loop_axis_change_def)
  then have l2: "loop ?s1 r2 = loop_switch ?f2 ?s1' r2"
    by (simp add: loop_def)
  from s1 have "\<exists>s2. loop_switch ?f2 ?s1' r2 = Some s2 \<and> currentState s2 \<noteq> STATE_MENU
       \<and> \<not> axisChangePending s2 \<and> activeFace s2 = activeFace s"
  proof (elim conjE disjE)
    assume a: "currentState ?s1 = STATE_COUNTDOWN" "activeFace ?s1 = activeFace s"
    then show ?thesis
      using updateCountdown_cases [of ?s1' r2]
      by (auto simp: loop_switch_def startAlarm_def Let_def)
  next
    assume a: "currentState ?s1 = STATE_ALARM" "currentNoteIndex ?s1 = 0" "activeFace ?s1 = activeFace s"
    then obtain s2 where u: "updateAlarm ?s1' r2 = Some s2"
      using updateAlarm_Some [of ?s1' r2] by auto
    from updateAlarm_cases [OF u] a u show ?thesis
      by (auto simp: loop_switch_def)
  qed
  with l1 l2 s1 show ?thesis by auto
qed

theorem flicker_does_not_cancel_witness:
  "reachable (startCountdown 5 (CHR ''Y'') 0 FACE_NEG_Y 0 ready)
   \<and> currentState (startCountdown 5 (CHR ''Y'') 0 FACE_NEG_Y 0 ready) = STATE_COUNTDOWN
   \<and> \<not> axisChangePending (startCountdown 5 (CHR ''Y'') 0 FACE_NEG_Y 0 ready)
   \<and> (\<exists>s1 s2. loop (startCountdown 5 (CHR ''Y'') 0 FACE_NEG_Y 0 ready)
                 (at_ms (Fin 0) (Fin 0) (Fin 10) 50) = Some s1
         \<and> loop s1 (at_ms (Fin 0) (Fin (- 10)) (Fin 0) 100) = Some s2
         \<and> axisChangePending s1 \<and> currentState s2 = STATE_COUNTDOWN
         \<and> \<not> axisChangePending s2)"
proof -
  let ?s = "startCountdown 5 (CHR ''Y'') 0 FACE_NEG_Y 0 ready"
  let ?r1 = "at_ms (Fin 0) (Fin 0) (Fin 10) (50 :: ulong)"
  let ?r2 = "at_ms (Fin 0) (Fin (- 10)) (Fin 0) (100 :: ulong)"
  have h2: "currentState ?s = STATE_COUNTDOWN" and h3: "\<not> axisChangePending ?s"
    by (simp_all add: startCountdown_def drawCountdownScreen_def)
  have h4: "detectFace (acc_x ?r1) (acc_y ?r1) (acc_z ?r1) \<noteq> activeFace ?s"
    by (simp add: at_ms_def detect_none startCountdown_def drawCountdownScreen_def)
  have h5: "detectFace (acc_x ?r2) (acc_y ?r2) (acc_z ?r2) = activeFace ?s"
    by (simp add: at_ms_def detect_neg_y startCountdown_def drawCountdownScreen_def)
  from flicker_does_not_cancel [OF reachable_started h2 h3 h4 h5]
  obtain s1 s2 where l: "loop ?s ?r1 = Some s1" "loop s1 ?r2 = Some s2"
    "axisChangePending s1" "currentState s2 \<noteq> STATE_MENU" "\<not> axisChangePending s2"
    by blast
  have "loop ?s ?r1 = Some (?s\<lparr>axisChangePending := True, axisChangeStartMs := 50\<rparr>)"
    by (simp add: loop_def at_ms_def detect_none loop_axis_change_def loop_switch_def
          startCountdown_def drawCountdownScreen_def updateCountdown_def)
  with l(1) have s1: "s1 = ?s\<lparr>axisChangePending := True, axisChangeStartMs := 50\<rparr>" by simp
  have "currentState s2 = STATE_COUNTDOWN" using l(2) unfolding s1
    by (auto simp add: loop_def at_ms_def detect_neg_y loop_axis_change_def loop_switch_def
          startCountdown_def drawCountdownScreen_def updateCountdown_def)
  with l reachable_started h2 h3 show ?thesis by blast
qed

text \<open>
  Claim C10. In every state the sketch can reach, \<open>currentNoteIndex\<close> is at least 0
  and less than \<open>NUM_NOTES\<close>, which is 13, the length of both \<open>melody\<close> and
  \<open>noteDurations\<close>; so both arrays can be read at the index. \<open>startAlarm\<close> leaves the
  index at 0, every \<open>updateAlarm\<close> from such a state reads inside the arrays and leaves
  the index in range again, and so no pass of \<open>loop\<close> reads outside an array.
\<close>

theorem note_index_in_bounds:
  assumes "reachable s"
  shows "0 \<le> currentNoteIndex s \<and> currentNoteIndex s < NUM_NOTES \<and> NUM_NOTES = 13
       \<and> int (length melody) = NUM_NOTES \<and> int (length noteDurations) = NUM_NOTES
       \<and> array_read noteDurations (currentNoteIndex s) \<noteq> None
       \<and> array_read melody (currentNoteIndex s) \<noteq> None
       \<and> (\<forall>t1 t2. currentNoteIndex (startAlarm t1 t2 s) = 0)
       \<and> (\<forall>r. \<exists>s'. updateAlarm s r = Some s'
              \<and> 0 \<le> currentNoteIndex s' \<and> currentNoteIndex s' < NUM_NOTES)
       \<and> (\<forall>r. \<exists>s'. loop s r = Some s')"
proof -
  from assms have "state_inv s" by (rule reachable_inv)
  then have b: "0 \<le> currentNoteIndex s" "currentNoteIndex s < 13"
    by (simp_all add: state_inv_def)
  have upd: "\<exists>s'. updateAlarm s r = Some s'
      \<and> 0 \<le> currentNoteIndex s' \<and> currentNoteIndex s' < NUM_NOTES" for r
  proof -
    from updateAlarm_Some [OF b] obtain s' where u: "updateAlarm s r = Some s'" by blast
    from updateAlarm_cases [OF u] b u show ?thesis by (auto simp: NUM_NOTES_13)
  qed
  from b upd loop_total [OF b] show ?thesis
    by (simp add: NUM_NOTES_13 length_melody length_noteDurations array_read_def
          startAlarm_def Let_def)
qed

theorem note_index_in_bounds_witness:
  "reachable ready \<and> currentNoteIndex ready = 0 \<and> NUM_NOTES = 13
   \<and> array_read noteDurations (currentNoteIndex ready) = Some 150
   \<and> array_read melody (currentNoteIndex ready) = Some 659"
  using note_index_in_bounds [OF reachable_ready] reachable_ready
  by (simp add: ready_def boot_def goToMenu_def drawMenu_def array_read_def melody_def
        noteDurations_def)

section \<open>Sustained reorientation\<close>

lemma loop_switch_active:
  assumes "currentState s = STATE_COUNTDOWN \<or> currentState s = STATE_ALARM"
      and "0 \<le> currentNoteIndex s" and "currentNoteIndex s < 13"
  shows "\<exists>s1. loop_switch f s r = Some s1
       \<and> (currentState s1 = STATE_COUNTDOWN \<or> currentState s1 = STATE_ALARM)
       \<and> axisChangePending s1 = axisChangePending s
       \<and> axisChangeStartMs s1 = axisChangeStartMs s
       \<and> activeFace s1 = activeFace s
       \<and> 0 \<le> currentNoteIndex s1 \<and> currentNoteIndex s1 < 13"
  using assms(1)
proof
  assume cd: "currentState s = STATE_COUNTDOWN"
  then have "loop_switch f s r = Some (updateCountdown s r)" by (simp add: loop_switch_def)
  with cd assms(2,3) updateCountdown_cases [of s r] show ?thesis
    by (auto simp: startAlarm_def Let_def)
next
  assume al: "currentState s = STATE_ALARM"
  from updateAlarm_Some [OF assms(2,3)] obtain s1 where u: "updateAlarm s r = Some s1" by blast
  from updateAlarm_cases [OF u] al u assms(2,3) show ?thesis
    by (auto simp: loop_switch_def)
qed

lemma pending_run:
  assumes "currentState s = STATE_COUNTDOWN \<or> currentState s = STATE_ALARM"
      and "0 \<le> currentNoteIndex s" and "currentNoteIndex s < 13"
      and "axisChangePending s"
      and "\<forall>r \<in> set rs. detectFace (acc_x r) (acc_y r) (acc_z r) \<noteq> activeFace s"
      and "rs \<noteq> []"
      and "ms_loop (last rs) - axisChangeStartMs s \<ge> AXIS_CHANGE_BUFFER_MS"
  shows "\<exists>k s0. k < length rs \<and> run s (take k rs) = Some s0
       \<and> (currentState s0 = STATE_COUNTDOWN \<or> currentState s0 = STATE_ALARM)
       \<and> loop s0 (rs ! k) = Some (goToMenu s0)"
  using assms
proof (induction rs arbitrary: s)
  case Nil
  then show ?case by simp
next
  case (Cons r rs)
  let ?f = "detectFace (acc_x r) (acc_y r) (acc_z r)"
  show ?case
  proof (cases "ms_loop r - axisChangeStartMs s \<ge> AXIS_CHANGE_BUFFER_MS")
    case True
    with Cons.prems have "loop s r = Some (goToMenu s)"
      by (auto simp: loop_def loop_axis_change_def)
    with Cons.prems(1) have "0 < length (r # rs) \<and> run s (take 0 (r # rs)) = Some s
       \<and> (currentState s = STATE_COUNTDOWN \<or> currentState s = STATE_ALARM)
       \<and> loop s ((r # rs) ! 0) = Some (goToMenu s)" by simp
    then show ?thesis by blast
  next
    case False
    with Cons.prems(7) have ne: "rs \<noteq> []" by auto
    from False Cons.prems have "loop_axis_change ?f (ms_loop r) s = Continue s"
      by (auto simp: loop_axis_change_def)
    then have l: "loop s r = loop_switch ?f s r" by (rule loop_Continue)
    from loop_switch_active [OF Cons.prems(1,2,3), of ?f r]
    obtain s1 where s1: "loop_switch ?f s r = Some s1"
      "currentState s1 = STATE_COUNTDOWN \<or> currentState s1 = STATE_ALARM"
      "axisChangePending s1 = axisChangePending s" "axisChangeStartMs s1 = axisChangeStartMs s"
      "activeFace s1 = activeFace s" "0 \<le> currentNoteIndex s1" "currentNoteIndex s1 < 13"
      by blast
    have "\<exists>k s0. k < length rs \<and> run s1 (take k rs) = Some s0
       \<and> (currentState s0 = STATE_COUNTDOWN \<or> currentState s0 = STATE_ALARM)
       \<and> loop s0 (rs ! k) = Some (goToMenu s0)"
      using s1 Cons.prems ne by (intro Cons.IH) auto
    then obtain k s0 where k: "k < length rs" "run s1 (take k rs) = Some s0"
       "currentState s0 = STATE_COUNTDOWN \<or> currentState s0 = STATE_ALARM"
       "loop s0 (rs ! k) = Some (goToMenu s0)" by blast
    with l s1(1) have "Suc k < length (r # rs) \<and> run s (take (Suc k) (r # rs)) = Some s0
       \<and> (currentState s0 = STATE_COUNTDOWN \<or> currentState s0 = STATE_ALARM)
       \<and> loop s0 ((r # rs) ! Suc k) = Some (goToMenu s0)" by simp
    then show ?thesis by blast
  qed
qed

text \<open>
  Claim C3, as the source has it. Let the sketch be in \<open>STATE_COUNTDOWN\<close> or
  \<open>STATE_ALARM\<close> with no axis-change window open, and let a row of at least two passes
  all see a face other than the active one, the last of them at least
  \<open>AXIS_CHANGE_BUFFER_MS\<close> (500 ms, as an unsigned difference) after the first. Then one
  of the passes after the first calls \<open>goToMenu\<close>: the state becomes \<open>STATE_MENU\<close>, the
  active face \<open>FACE_NONE\<close>, the window is closed, the tone is stopped, the LED and the
  piezo pin are low and the menu is drawn. \<open>countdownRemainingSec\<close> is not cleared: it
  keeps the value it had.
\<close>

theorem sustained_reorientation_goes_to_menu:
  assumes "reachable s"
      and "currentState s = STATE_COUNTDOWN \<or> currentState s = STATE_ALARM"
      and "\<not> axisChangePending s"
      and "\<forall>r \<in> set (r1 # rs). detectFace (acc_x r) (acc_y r) (acc_z r) \<noteq> activeFace s"
      and "rs \<noteq> []"
      and "ms_loop (last rs) - ms_loop r1 \<ge> AXIS_CHANGE_BUFFER_MS"
  shows "\<exists>k s0. k < length rs \<and> run s (r1 # take k rs) = Some s0
       \<and> (currentState s0 = STATE_COUNTDOWN \<or> currentState s0 = STATE_ALARM)
       \<and> loop s0 (rs ! k) = Some (goToMenu s0)
       \<and> currentState (goToMenu s0) = STATE_MENU \<and> activeFace (goToMenu s0) = FACE_NONE
       \<and> \<not> axisChangePending (goToMenu s0)
       \<and> tone_hz (goToMenu s0) = None \<and> \<not> led_pin (goToMenu s0) \<and> \<not> piezo_pin (goToMenu s0)
       \<and> display (goToMenu s0) = ScreenMenu
       \<and> countdownRemainingSec (goToMenu s0) = countdownRemainingSec s0"
proof -
  let ?f = "detectFace (acc_x r1) (acc_y r1) (acc_z r1)"
  let ?s0 = "s\<lparr>axisChangePending := True, axisChangeStartMs := ms_loop r1\<rparr>"
  from reachable_inv [OF assms(1)] have b: "0 \<le> currentNoteIndex s" "currentNoteIndex s < 13"
    by (simp_all add: state_inv_def)
  have "loop_axis_change ?f (ms_loop r1) s = Continue ?s0"
    using assms(2,3,4) by (auto simp: loop_axis_change_def)
  then have l: "loop s r1 = loop_switch ?f ?s0 r1" by (rule loop_Continue)
  from loop_switch_active [of ?s0 ?f r1] assms(2) b
  obtain s1 where s1: "loop_switch ?f ?s0 r1 = Some s1"
      "currentState s1 = STATE_COUNTDOWN \<or> currentState s1 = STATE_ALARM"
      "axisChangePending s1" "axisChangeStartMs s1 = ms_loop r1"
      "activeFace s1 = activeFace s" "0 \<le> currentNoteIndex s1" "currentNoteIndex s1 < 13"
    by auto
  have "\<exists>k s0. k < length rs \<and> run s1 (take k rs) = Some s0
       \<and> (currentState s0 = STATE_COUNTDOWN \<or> currentState s0 = STATE_ALARM)
       \<and> loop s0 (rs ! k) = Some (goToMenu s0)"
    using s1 assms(4,5,6) by (intro pending_run) auto
  then obtain k s0 where k: "k < length rs" "run s1 (take k rs) = Some s0"
       "currentState s0 = STATE_COUNTDOWN \<or> currentState s0 = STATE_ALARM"
       "loop s0 (rs ! k) = Some (goToMenu s0)" by blast
  from l s1(1) k(2) have "run s (r1 # take k rs) = Some s0" by simp
  with k show ?thesis
    by (intro exI [of _ k] exI [of _ s0]) (simp add: goToMenu_def drawMenu_def)
qed

theorem sustained_reorientation_goes_to_menu_witness:
  "reachable (startCountdown 5 (CHR ''Y'') 0 FACE_NEG_Y 0 ready)
   \<and> currentState (startCountdown 5 (CHR ''Y'') 0 FACE_NEG_Y 0 ready) = STATE_COUNTDOWN
   \<and> \<not> axisChangePending (startCountdown 5 (CHR ''Y'') 0 FACE_NEG_Y 0 ready)
   \<and> (600 :: ulong) - 50 \<ge> AXIS_CHANGE_BUFFER_MS
   \<and> (\<exists>k s0. k < length [at_ms (Fin 0) (Fin 0) (Fin 10) (600 :: ulong)]
         \<and> run (startCountdown 5 (CHR ''Y'') 0 FACE_NEG_Y 0 ready)
              (at_ms (Fin 0) (Fin 0) (Fin 10) 50 # take k [at_ms (Fin 0) (Fin 0) (Fin 10) 600])
             = Some s0
         \<and> loop s0 ([at_ms (Fin 0) (Fin 0) (Fin 10) 600] ! k) = Some (goToMenu s0)
         \<and> currentState (goToMenu s0) = STATE_MENU
         \<and> tone_hz (goToMenu s0) = None \<and> \<not> led_pin (goToMenu s0))"
proof -
  let ?s = "startCountdown 5 (CHR ''Y'') 0 FACE_NEG_Y 0 ready"
  let ?r1 = "at_ms (Fin 0) (Fin 0) (Fin 10) (50 :: ulong)"
  let ?r2 = "at_ms (Fin 0) (Fin 0) (Fin 10) (600 :: ulong)"
  have h2: "currentState ?s = STATE_COUNTDOWN \<or> currentState ?s = STATE_ALARM"
    and h3: "\<not> axisChangePending ?s"
    by (simp_all add: startCountdown_def drawCountdownScreen_def)
  have h4: "\<forall>r \<in> set (?r1 # [?r2]). detectFace (acc_x r) (acc_y r) (acc_z r) \<noteq> activeFace ?s"
    by (simp add: at_ms_def detect_none startCountdown_def drawCountdownScreen_def)
  have h5: "[?r2] \<noteq> []" by simp
  have h6: "ms_loop (last [?r2]) - ms_loop ?r1 \<ge> AXIS_CHANGE_BUFFER_MS"
    by (simp add: at_ms_def consts_defs)
  from sustained_reorientation_goes_to_menu [OF reachable_started h2 h3 h4 h5 h6]
  obtain k s0 where "k < length [?r2]" "run ?s (?r1 # take k [?r2]) = Some s0"
    "loop s0 ([?r2] ! k) = Some (goToMenu s0)" "currentState (goToMenu s0) = STATE_MENU"
    "tone_hz (goToMenu s0) = None" "\<not> led_pin (goToMenu s0)"
    by blast
  moreover have "currentState ?s = STATE_COUNTDOWN"
    by (simp add: startCountdown_def drawCountdownScreen_def)
  moreover have "(600 :: ulong) - 50 \<ge> AXIS_CHANGE_BUFFER_MS"
    by (simp add: consts_defs)
  ultimately show ?thesis using reachable_started h3 by blast
qed

text \<open>
  The claim as the specification words it fails in one point: the remaining seconds are
  not cleared. A countdown of 5 s starts at 0 ms; the device lies flat (no face) on the
  passes at 50 ms and 600 ms; the second of them returns to the menu, and
  \<open>countdownRemainingSec\<close> is still 5.
\<close>

theorem reorientation_keeps_remaining_seconds:
  "map_option currentState
     (run ready [at_ms (Fin 0) (Fin (- 10)) (Fin 0) 0, at_ms (Fin 0) (Fin 0) (Fin 10) 50,
        at_ms (Fin 0) (Fin 0) (Fin 10) 600]) = Some STATE_MENU
   \<and> map_option countdownRemainingSec
     (run ready [at_ms (Fin 0) (Fin (- 10)) (Fin 0) 0, at_ms (Fin 0) (Fin 0) (Fin 10) 50,
        at_ms (Fin 0) (Fin 0) (Fin 10) 600]) = Some 5"
  by (simp add: step_defs detect_neg_y detect_none start_defs consts_defs)

section \<open>The scenario of a 5 s countdown\<close>

text \<open>
  Claim C4, as the source has it. The device rests on the face \<open>FACE_NEG_Y\<close> and the
  passes come at \<open>T\<close>, then one second apart. The first pass leaves the menu for a
  countdown of 5 s. After the five passes at 1000 to 5000 ms the remaining seconds are
  0 and the state is still \<open>STATE_COUNTDOWN\<close>; the pass at 6000 ms enters the alarm,
  starts the tone at 659 Hz and writes the LED low, as it was. A pass of the alarm at
  the time of entry does not toggle the LED; the pass 1000 ms after entry switches it
  on and the pass 2000 ms after entry switches it off.
\<close>

theorem neg_y_scenario:
  assumes "detectFace x y z = FACE_NEG_Y"
  shows "(\<exists>s. run ready (held x y z T [0]) = Some s
            \<and> currentState s = STATE_COUNTDOWN
            \<and> countdownTotalSec s = 5 \<and> countdownRemainingSec s = 5)
       \<and> (\<exists>s. run ready (held x y z T [0, 1000, 2000, 3000, 4000, 5000]) = Some s
            \<and> currentState s = STATE_COUNTDOWN \<and> countdownRemainingSec s = 0
            \<and> \<not> led_pin s)
       \<and> (\<exists>s. run ready (held x y z T [0, 1000, 2000, 3000, 4000, 5000, 6000]) = Some s
            \<and> currentState s = STATE_ALARM \<and> countdownRemainingSec s = 0
            \<and> tone_hz s = Some 659 \<and> currentNoteIndex s = 0 \<and> \<not> led_pin s)
       \<and> (\<exists>s. run ready (held x y z T [0, 1000, 2000, 3000, 4000, 5000, 6000, 6000]) = Some s
            \<and> currentState s = STATE_ALARM \<and> \<not> led_pin s)
       \<and> (\<exists>s. run ready (held x y z T [0, 1000, 2000, 3000, 4000, 5000, 6000, 6000, 7000])
              = Some s
            \<and> currentState s = STATE_ALARM \<and> led_pin s)
       \<and> (\<exists>s. run ready
              (held x y z T [0, 1000, 2000, 3000, 4000, 5000, 6000, 6000, 7000, 8000]) = Some s
            \<and> currentState s = STATE_ALARM \<and> \<not> led_pin s)"
proof (intro conjI)
  show "\<exists>s. run ready (held x y z T [0]) = Some s
            \<and> currentState s = STATE_COUNTDOWN
            \<and> countdownTotalSec s = 5 \<and> countdownRemainingSec s = 5"
    using assms by (simp add: step_defs start_defs consts_defs)
  show "\<exists>s. run ready (held x y z T [0, 1000, 2000, 3000, 4000, 5000]) = Some s
            \<and> currentState s = STATE_COUNTDOWN \<and> countdownRemainingSec s = 0
            \<and> \<not> led_pin s"
    using assms by (simp add: step_defs start_defs consts_defs)
  show "\<exists>s. run ready (held x y z T [0, 1000, 2000, 3000, 4000, 5000, 6000]) = Some s
            \<and> currentState s = STATE_ALARM \<and> countdownRemainingSec s = 0
            \<and> tone_hz s = Some 659 \<and> currentNoteIndex s = 0 \<and> \<not> led_pin s"
    using assms by (simp add: step_defs start_defs consts_defs)
  show "\<exists>s. run ready (held x y z T [0, 1000, 2000, 3000, 4000, 5000, 6000, 6000]) = Some s
            \<and> currentState s = STATE_ALARM \<and> \<not> led_pin s"
    using assms by (simp add: step_defs start_defs consts_defs)
  show "\<exists>s. run ready (held x y z T [0, 1000, 2000, 3000, 4000, 5000, 6000, 6000, 7000])
              = Some s
            \<and> currentState s = STATE_ALARM \<and> led_pin s"
    using assms by (simp add: step_defs start_defs consts_defs)
  show "\<exists>s. run ready
              (held x y z T [0, 1000, 2000, 3000, 4000, 5000, 6000, 6000, 7000, 8000]) = Some s
            \<and> currentState s = STATE_ALARM \<and> \<not> led_pin s"
    using assms by (simp add: step_defs start_defs consts_defs)
qed

theorem neg_y_scenario_witness:
  "detectFace (Fin 0) (Fin (- 10)) (Fin 0) = FACE_NEG_Y
   \<and> (\<exists>s. run ready (held (Fin 0) (Fin (- 10)) (Fin 0) 4294966000
              [0, 1000, 2000, 3000, 4000, 5000, 6000]) = Some s
         \<and> currentState s = STATE_ALARM \<and> tone_hz s = Some 659 \<and> \<not> led_pin s)"
  using neg_y_scenario [OF detect_neg_y, of 4294966000] detect_neg_y by blast

text \<open>
  The claim as the specification words it fails in two points, here with the clock
  starting at 0. After the five one-second passes the sketch has not gone to the alarm:
  it shows 0 for one more second and enters the alarm on the sixth. And the LED is not
  toggled at the start of the alarm: it is low before the entry, after the entry and
  after a further pass at the time of entry, and is first switched on 1000 ms later.
\<close>

theorem five_ticks_not_yet_alarm:
  "map_option currentState
     (run ready (held (Fin 0) (Fin (- 10)) (Fin 0) 0 [0, 1000, 2000, 3000, 4000, 5000]))
     = Some STATE_COUNTDOWN
   \<and> map_option led_pin
     (run ready (held (Fin 0) (Fin (- 10)) (Fin 0) 0 [0, 1000, 2000, 3000, 4000, 5000]))
     = Some False
   \<and> map_option currentState
     (run ready (held (Fin 0) (Fin (- 10)) (Fin 0) 0 [0, 1000, 2000, 3000, 4000, 5000, 6000]))
     = Some STATE_ALARM
   \<and> map_option led_pin
     (run ready (held (Fin 0) (Fin (- 10)) (Fin 0) 0 [0, 1000, 2000, 3000, 4000, 5000, 6000]))
     = Some False
   \<and> map_option led_pin
     (run ready
        (held (Fin 0) (Fin (- 10)) (Fin 0) 0 [0, 1000, 2000, 3000, 4000, 5000, 6000, 6000]))
     = Some False
   \<and> map_option led_pin
     (run ready
        (held (Fin 0) (Fin (- 10)) (Fin 0) 0 [0, 1000, 2000, 3000, 4000, 5000, 6000, 6000, 7000]))
     = Some True"
  by (simp add: step_defs detect_neg_y start_defs consts_defs)

section \<open>Alarm sequencer\<close>











section \<open>Wrap-around of the millisecond clock\<close>

lemma elapsed_check:
  assumes "within_wrap a n" and "0 \<le> k" and "k < 2 ^ 32"
  shows "((word_of_int k :: ulong) \<le> word_of_int n - word_of_int a) = (k \<le> n - a)"
proof -
  have "(word_of_int n - word_of_int a :: ulong) = word_of_int (n - a)" by simp
  moreover have "uint (word_of_int (n - a) :: ulong) = n - a"
    using assms(1) by (intro word_of_int_inverse [OF refl]) (simp_all add: within_wrap_def)
  moreover have "uint (word_of_int k :: ulong) = k"
    using assms(2,3) by (intro word_of_int_inverse [OF refl]) simp_all
  ultimately show ?thesis by (simp only: word_le_def)
qed

lemma wrap_goToMenu: "wrap_state (goToMenu u) = goToMenu (wrap_state u)"
  by (simp add: wrap_state_def goToMenu_def drawMenu_def)

lemma duration_range:
  assumes "array_read noteDurations i = Some d"
  shows "0 \<le> d \<and> d < 2 ^ 32"
proof -
  have "list_all (\<lambda>d. 0 \<le> d \<and> d < 2 ^ 32) noteDurations" by (simp add: noteDurations_def)
  with assms show ?thesis
    by (auto simp: array_read_def list_all_length split: if_splits)
qed

lemma wrap_updateCountdown:
  assumes "currentState u = STATE_COUNTDOWN \<longrightarrow> within_wrap (lastCountdownTick u) (ms_fn q)"
  shows "updateCountdown (wrap_state u) (wrap_reading q) = wrap_state (updateCountdown_unwrapped u q)"
proof (cases "currentState u = STATE_COUNTDOWN")
  case False
  then show ?thesis
    by (simp add: updateCountdown_def updateCountdown_unwrapped_def wrap_state_def)
next
  case True
  with assms have "((word_of_int 1000 :: ulong) \<le> word_of_int (ms_fn q) - word_of_int (lastCountdownTick u))
      = (1000 \<le> ms_fn q - lastCountdownTick u)"
    by (intro elapsed_check) simp_all
  then have e: "((1000 :: ulong) \<le> word_of_int (ms_fn q) - word_of_int (lastCountdownTick u))
      = (1000 \<le> ms_fn q - lastCountdownTick u)" by simp
  show ?thesis
    using True
    by (simp add: updateCountdown_def updateCountdown_unwrapped_def wrap_state_def wrap_reading_def
          e Let_def drawCountdownScreen_def startAlarm_def startAlarm_unwrapped_def)
qed

lemma wrap_updateAlarm:
  assumes "currentState u = STATE_ALARM \<longrightarrow>
      within_wrap (lastAlarmToggleMs u) (ms_fn q) \<and> within_wrap (noteStartMs u) (ms_fn q)"
  shows "updateAlarm (wrap_state u) (wrap_reading q) = map_option wrap_state (updateAlarm_unwrapped u q)"
proof (cases "currentState u = STATE_ALARM")
  case False
  then show ?thesis
    by (simp add: updateAlarm_def updateAlarm_unwrapped_def wrap_state_def)
next
  case True
  with assms have w: "within_wrap (lastAlarmToggleMs u) (ms_fn q)" "within_wrap (noteStartMs u) (ms_fn q)"
    by simp_all
  have "((word_of_int 1000 :: ulong) \<le> word_of_int (ms_fn q) - word_of_int (lastAlarmToggleMs u))
      = (1000 \<le> ms_fn q - lastAlarmToggleMs u)"
    using w(1) by (intro elapsed_check) simp_all
  then have e1: "((1000 :: ulong) \<le> word_of_int (ms_fn q) - word_of_int (lastAlarmToggleMs u))
      = (1000 \<le> ms_fn q - lastAlarmToggleMs u)" by simp
  have e2: "((word_of_int d :: ulong) \<le> word_of_int (ms_fn q) - word_of_int (noteStartMs u))
      = (d \<le> ms_fn q - noteStartMs u)" if "array_read noteDurations i = Some d" for i d
    using w(2) duration_range [OF that] by (intro elapsed_check) simp_all
  show ?thesis
    using True
    by (auto simp: updateAlarm_def updateAlarm_unwrapped_def wrap_state_def wrap_reading_def
          e1 e2 Let_def ALARM_TOGGLE_MS_def split: option.splits)
qed

lemma fresh_within_wrap:
  assumes "fresh l e a" and "pass_clock_ok l e q" and "now = ms_loop q \<or> now = ms_fn q"
  shows "within_wrap a now"
  using assms by (auto simp: fresh_def pass_clock_ok_def within_wrap_def)

lemma wrap_loop_axis_change:
  assumes "currentState u \<noteq> STATE_MENU \<and> axisChangePending u \<longrightarrow>
             within_wrap (axisChangeStartMs u) now"
  shows "loop_axis_change f (word_of_int now) (wrap_state u) =
     (case loop_axis_change_unwrapped f now u of
        Interrupt \<Rightarrow> Interrupt | Continue u1 \<Rightarrow> Continue (wrap_state u1))"
proof (cases "currentState u \<noteq> STATE_MENU \<and> axisChangePending u")
  case True
  with assms have "((word_of_int 500 :: ulong) \<le> word_of_int now - word_of_int (axisChangeStartMs u))
      = (500 \<le> now - axisChangeStartMs u)"
    by (intro elapsed_check) simp_all
  then have e: "((500 :: ulong) \<le> word_of_int now - word_of_int (axisChangeStartMs u))
      = (500 \<le> now - axisChangeStartMs u)" by simp
  show ?thesis
    using True
    by (auto simp: loop_axis_change_def loop_axis_change_unwrapped_def wrap_state_def e
          AXIS_CHANGE_BUFFER_MS_def)
next
  case False
  then show ?thesis
    by (cases "currentState u")
       (auto simp: loop_axis_change_def loop_axis_change_unwrapped_def wrap_state_def)
qed

lemma wrap_startCountdown:
  "startCountdown d l rot f (word_of_int now) (wrap_state u) =
     wrap_state (startCountdown_unwrapped d l rot f now u)"
  by (simp add: startCountdown_def startCountdown_unwrapped_def wrap_state_def
        drawCountdownScreen_def)

lemma wrap_loop_switch:
  assumes "currentState u = STATE_COUNTDOWN \<longrightarrow> within_wrap (lastCountdownTick u) (ms_fn q)"
      and "currentState u = STATE_ALARM \<longrightarrow>
             within_wrap (lastAlarmToggleMs u) (ms_fn q) \<and> within_wrap (noteStartMs u) (ms_fn q)"
  shows "loop_switch f (wrap_state u) (wrap_reading q) =
           map_option wrap_state (loop_switch_unwrapped f u q)"
proof (cases "currentState u")
  case STATE_MENU
  have ms: "ms_fn (wrap_reading q) = word_of_int (ms_fn q)" by (simp add: wrap_reading_def)
  have st: "currentState (wrap_state u) = STATE_MENU" using STATE_MENU by (simp add: wrap_state_def)
  show ?thesis
    using STATE_MENU
    by (simp add: loop_switch_def loop_switch_unwrapped_def st ms wrap_startCountdown)
next
  case STATE_COUNTDOWN
  have st: "currentState (wrap_state u) = STATE_COUNTDOWN"
    using STATE_COUNTDOWN by (simp add: wrap_state_def)
  from STATE_COUNTDOWN assms(1) show ?thesis
    by (simp add: loop_switch_def loop_switch_unwrapped_def st wrap_updateCountdown)
next
  case STATE_ALARM
  have st: "currentState (wrap_state u) = STATE_ALARM"
    using STATE_ALARM by (simp add: wrap_state_def)
  from STATE_ALARM assms(2) show ?thesis
    by (simp add: loop_switch_def loop_switch_unwrapped_def st wrap_updateAlarm)
qed

lemma loop_axis_change_unwrapped_Continue:
  assumes "loop_axis_change_unwrapped f now u = Continue u1"
  shows "currentState u1 = currentState u
       \<and> lastCountdownTick u1 = lastCountdownTick u
       \<and> lastAlarmToggleMs u1 = lastAlarmToggleMs u
       \<and> noteStartMs u1 = noteStartMs u"
  using assms by (auto simp: loop_axis_change_unwrapped_def split: if_splits)

lemma wrap_loop:
  assumes "currentState u \<noteq> STATE_MENU \<and> axisChangePending u \<longrightarrow>
             within_wrap (axisChangeStartMs u) (ms_loop q)"
      and "currentState u = STATE_COUNTDOWN \<longrightarrow> within_wrap (lastCountdownTick u) (ms_fn q)"
      and "currentState u = STATE_ALARM \<longrightarrow>
             within_wrap (lastAlarmToggleMs u) (ms_fn q) \<and> within_wrap (noteStartMs u) (ms_fn q)"
  shows "loop (wrap_state u) (wrap_reading q) = map_option wrap_state (loop_unwrapped u q)"
proof -
  let ?f = "detectFace (acc_x q) (acc_y q) (acc_z q)"
  have r: "acc_x (wrap_reading q) = acc_x q" "acc_y (wrap_reading q) = acc_y q"
    "acc_z (wrap_reading q) = acc_z q" "ms_loop (wrap_reading q) = word_of_int (ms_loop q)"
    by (simp_all add: wrap_reading_def)
  note ax = wrap_loop_axis_change [OF assms(1), of ?f]
  show ?thesis
  proof (cases "loop_axis_change_unwrapped ?f (ms_loop q) u")
    case Interrupt
    with ax show ?thesis
      by (simp add: loop_def loop_unwrapped_def r wrap_goToMenu)
  next
    case (Continue u1)
    note c = loop_axis_change_unwrapped_Continue [OF Continue]
    from c assms(2,3) have "loop_switch ?f (wrap_state u1) (wrap_reading q) =
           map_option wrap_state (loop_switch_unwrapped ?f u1 q)"
      by (intro wrap_loop_switch) simp_all
    with ax Continue show ?thesis
      by (simp add: loop_def loop_unwrapped_def r)
  qed
qed

lemma duration_le_600:
  assumes "array_read noteDurations i = Some d"
  shows "d \<le> 600"
proof -
  have "list_all (\<lambda>d. d \<le> 600) noteDurations" by (simp add: noteDurations_def)
  with assms show ?thesis
    by (auto simp: array_read_def list_all_length split: if_splits)
qed

lemma axis_fresh:
  assumes "loop_axis_change_unwrapped f (ms_loop q) u = Continue u1"
      and "anchors_fresh u l e" and "pass_clock_ok l e q"
  shows "(currentState u1 \<noteq> STATE_MENU \<and> axisChangePending u1 \<longrightarrow>
            fresh (ms_loop q) (ms_alarm2 q) (axisChangeStartMs u1))
       \<and> (currentState u1 = STATE_COUNTDOWN \<longrightarrow> fresh l e (lastCountdownTick u1))
       \<and> (currentState u1 = STATE_ALARM \<longrightarrow>
            fresh l e (lastAlarmToggleMs u1) \<and> fresh l e (noteStartMs u1))"
  using assms
  by (auto simp: loop_axis_change_unwrapped_def anchors_fresh_def fresh_def pass_clock_ok_def
        split: if_splits)

lemma switch_fresh:
  assumes "loop_switch_unwrapped f u1 q = Some u'"
      and "currentState u1 \<noteq> STATE_MENU \<and> axisChangePending u1 \<longrightarrow>
            fresh (ms_loop q) (ms_alarm2 q) (axisChangeStartMs u1)"
      and "currentState u1 = STATE_COUNTDOWN \<longrightarrow> fresh l e (lastCountdownTick u1)"
      and "currentState u1 = STATE_ALARM \<longrightarrow>
            fresh l e (lastAlarmToggleMs u1) \<and> fresh l e (noteStartMs u1)"
      and "pass_clock_ok l e q"
  shows "anchors_fresh u' (ms_loop q) (ms_alarm2 q)"
proof (cases "currentState u1")
  case STATE_MENU
  with assms show ?thesis
    by (auto simp: loop_switch_unwrapped_def startCountdown_unwrapped_def drawCountdownScreen_def
          anchors_fresh_def fresh_def pass_clock_ok_def split: if_splits)
next
  case STATE_COUNTDOWN
  with assms show ?thesis
    by (auto simp: loop_switch_unwrapped_def updateCountdown_unwrapped_def
          startAlarm_unwrapped_def drawCountdownScreen_def Let_def
          anchors_fresh_def fresh_def pass_clock_ok_def split: if_splits)
next
  case STATE_ALARM
  with assms(1) have u: "updateAlarm_unwrapped u1 q = Some u'"
    by (simp add: loop_switch_unwrapped_def)
  then obtain d where d: "array_read noteDurations (currentNoteIndex u1) = Some d"
    using STATE_ALARM
    by (auto simp: updateAlarm_unwrapped_def Let_def split: option.splits if_splits)
  from duration_le_600 [OF d] have "d \<le> 600" .
  with u d STATE_ALARM assms(2,4,5) show ?thesis
    by (auto simp: updateAlarm_unwrapped_def Let_def
          anchors_fresh_def fresh_def pass_clock_ok_def split: option.splits if_splits)
qed

lemma anchors_fresh_loop:
  assumes "anchors_fresh u l e" and "pass_clock_ok l e q" and "loop_unwrapped u q = Some u'"
  shows "anchors_fresh u' (ms_loop q) (ms_alarm2 q)"
proof (cases "loop_axis_change_unwrapped (detectFace (acc_x q) (acc_y q) (acc_z q)) (ms_loop q) u")
  case Interrupt
  with assms(3) have "u' = goToMenu u" by (simp add: loop_unwrapped_def)
  then show ?thesis by (simp add: anchors_fresh_def goToMenu_def drawMenu_def)
next
  case (Continue u1)
  with assms(3)
  have sw: "loop_switch_unwrapped (detectFace (acc_x q) (acc_y q) (acc_z q)) u1 q = Some u'"
    by (simp add: loop_unwrapped_def)
  from axis_fresh [OF Continue assms(1,2)] show ?thesis
    by (intro switch_fresh [OF sw _ _ _ assms(2)]) simp_all
qed

lemma anchors_fresh_within_wrap:
  assumes "anchors_fresh u l e" and "pass_clock_ok l e q"
  shows "(currentState u \<noteq> STATE_MENU \<and> axisChangePending u \<longrightarrow>
             within_wrap (axisChangeStartMs u) (ms_loop q))
       \<and> (currentState u = STATE_COUNTDOWN \<longrightarrow> within_wrap (lastCountdownTick u) (ms_fn q))
       \<and> (currentState u = STATE_ALARM \<longrightarrow>
             within_wrap (lastAlarmToggleMs u) (ms_fn q) \<and> within_wrap (noteStartMs u) (ms_fn q))"
  using assms by (auto simp: anchors_fresh_def intro: fresh_within_wrap)

lemma wrap_ready: "wrap_state ready_unwrapped = ready"
  by (simp add: wrap_state_def ready_unwrapped_def ready_def boot_def goToMenu_def drawMenu_def)

text \<open>
  Claim C9. The four elapsed-time tests of the sketch (countdown tick, LED toggle, note
  advance, axis-change confirmation) subtract the anchor from the clock reading in
  32-bit unsigned arithmetic and compare the difference with the threshold. Run the
  sketch on any clock that does not run backwards and on which less than \<open>2^32 - 1000\<close>
  ms pass from the beginning of one pass to the end of the next, from a state whose live
  anchors are fresh (the state before the first pass is one). Then the run that sees
  the clock through 32 bits, wrapping as often as it may, ends after any number of passes
  in the image of the state in which the run of the same sketch on the unwrapped clock
  ends: the same state of the machine, the same counters and outputs, and timestamps that
  are the unwrapped ones modulo \<open>2^32\<close>. So no tick is lost, repeated or delayed by
  the wrap.
\<close>

theorem wrapped_clock_runs_as_unwrapped:
  assumes "anchors_fresh u l e" and "clock_ok l e qs"
  shows "run (wrap_state u) (map wrap_reading qs) = map_option wrap_state (run_unwrapped u qs)"
  using assms
proof (induction qs arbitrary: u l e)
  case Nil
  then show ?case by simp
next
  case (Cons q qs)
  from Cons.prems(2) have ok: "pass_clock_ok l e q" and rest: "clock_ok (ms_loop q) (ms_alarm2 q) qs"
    by simp_all
  from anchors_fresh_within_wrap [OF Cons.prems(1) ok]
  have step: "loop (wrap_state u) (wrap_reading q) = map_option wrap_state (loop_unwrapped u q)"
    by (intro wrap_loop) simp_all
  show ?case
  proof (cases "loop_unwrapped u q")
    case None
    with step show ?thesis by simp
  next
    case (Some u')
    from anchors_fresh_loop [OF Cons.prems(1) ok Some] rest
    have "run (wrap_state u') (map wrap_reading qs) = map_option wrap_state (run_unwrapped u' qs)"
      by (rule Cons.IH)
    with step Some show ?thesis by simp
  qed
qed

theorem wrapped_clock_runs_as_unwrapped_witness:
  "anchors_fresh ready_unwrapped 4294966696 4294966696
   \<and> clock_ok 4294966696 4294966696
        [at_ms (Fin 0) (Fin (- 10)) (Fin 0) 4294966696,
         at_ms (Fin 0) (Fin (- 10)) (Fin 0) 4294967696]
   \<and> map_option countdownRemainingSec
        (run ready [at_ms (Fin 0) (Fin (- 10)) (Fin 0) 4294966696,
                    at_ms (Fin 0) (Fin (- 10)) (Fin 0) 400]) = Some 4
   \<and> map_option countdownRemainingSec
        (run_unwrapped ready_unwrapped
           [at_ms (Fin 0) (Fin (- 10)) (Fin 0) 4294966696,
            at_ms (Fin 0) (Fin (- 10)) (Fin 0) 4294967696]) = Some 4"
proof -
  let ?qs = "[at_ms (Fin 0) (Fin (- 10)) (Fin 0) (4294966696 :: int),
              at_ms (Fin 0) (Fin (- 10)) (Fin 0) 4294967696]"
  have h1: "anchors_fresh ready_unwrapped 4294966696 4294966696"
    by (simp add: anchors_fresh_def ready_unwrapped_def)
  have h2: "clock_ok 4294966696 4294966696 ?qs"
    by (simp add: pass_clock_ok_def at_ms_def)
  have u: "map_option countdownRemainingSec (run_unwrapped ready_unwrapped ?qs) = Some 4"
    by (simp add: loop_unwrapped_def loop_axis_change_unwrapped_def loop_switch_unwrapped_def
          startCountdown_unwrapped_def updateCountdown_unwrapped_def drawCountdownScreen_def
          ready_unwrapped_def at_ms_def detect_neg_y consts_defs Let_def)
  have mq: "map wrap_reading ?qs = [at_ms (Fin 0) (Fin (- 10)) (Fin 0) 4294966696,
                    at_ms (Fin 0) (Fin (- 10)) (Fin 0) 400]"
    by (simp add: wrap_reading_def at_ms_def)
  have rem: "countdownRemainingSec (wrap_state v) = countdownRemainingSec v" for v
    by (simp add: wrap_state_def)
  from wrapped_clock_runs_as_unwrapped [OF h1 h2]
  have "run ready [at_ms (Fin 0) (Fin (- 10)) (Fin 0) 4294966696,
                    at_ms (Fin 0) (Fin (- 10)) (Fin 0) 400]
        = map_option wrap_state (run_unwrapped ready_unwrapped ?qs)"
    by (simp only: wrap_ready mq)
  then have "map_option countdownRemainingSec
        (run ready [at_ms (Fin 0) (Fin (- 10)) (Fin 0) 4294966696,
                    at_ms (Fin 0) (Fin (- 10)) (Fin 0) 400])
        = map_option countdownRemainingSec
            (map_option wrap_state (run_unwrapped ready_unwrapped ?qs))"
    by (rule arg_cong)
  also have "\<dots> = map_option countdownRemainingSec (run_unwrapped ready_unwrapped ?qs)"
    by (simp only: option.map_comp comp_def rem)
  also note u
  finally show ?thesis using h1 h2 u by blast
qed

end
